theory Spec2Isabelle
  imports Main "HOL-Library.Option_ord" "HOL-Library.Word"
begin

section \<open>JavaScript values\<close>

text \<open>
  The scraped records are untyped JavaScript objects. A field holds \<open>undefined\<close> (also the
  reading of an absent property), \<open>null\<close>, a boolean, a number or a string. Numbers are
  restricted to the integers from \<open>0\<close> to \<open>2^32 - 1\<close>, which covers minutes, counters and
  error codes; these are the numbers that ToString writes with all their digits.
\<close>

datatype jsval = JUndefined | JNull | JBool bool | JNum "32 word" | JStr string

text \<open>ToBoolean, as used by \<open>!x\<close>, \<open>x && y\<close>, \<open>x || y\<close> and \<open>if (x)\<close>.\<close>

fun truthy :: "jsval \<Rightarrow> bool" where
  "truthy JUndefined = False"
| "truthy JNull = False"
| "truthy (JBool b) = b"
| "truthy (JNum n) = (n \<noteq> 0)"
| "truthy (JStr s) = (s \<noteq> [])"

definition digit_char :: "nat \<Rightarrow> char" where
  "digit_char d = ''0123456789'' ! d"

function decimal :: "nat \<Rightarrow> string" where
  "decimal n = (if n < 10 then [digit_char n] else decimal (n div 10) @ [digit_char (n mod 10)])"
  by pat_completeness auto
termination
  by (relation "measure id") auto

declare decimal.simps [simp del]

text \<open>
  The string an array element contributes to \<open>Array.prototype.join\<close>: \<open>undefined\<close> and
  \<open>null\<close> contribute the empty string, everything else its ToString.
\<close>

fun join_elem :: "jsval \<Rightarrow> string" where
  "join_elem JUndefined = []"
| "join_elem JNull = []"
| "join_elem (JBool b) = (if b then ''true'' else ''false'')"
| "join_elem (JNum n) = decimal (unat n)"
| "join_elem (JStr s) = s"

fun js_join :: "string \<Rightarrow> jsval list \<Rightarrow> string" where
  "js_join sep [] = []"
| "js_join sep [x] = join_elem x"
| "js_join sep (x # y # ys) = join_elem x @ sep @ js_join sep (y # ys)"

section \<open>Events and their reconciliation (utils.js)\<close>

text \<open>
  An event as the page scraper produces it: \<open>{minute, type, player, assist}\<close>, with
  \<open>isOwnGoal\<close> added for own goals. A property that is not there reads as \<open>JUndefined\<close>.
\<close>

record event =
  minute :: jsval
  type :: jsval
  player :: jsval
  assist :: jsval
  isOwnGoal :: jsval

text \<open>\<open>const key = [e.minute, e.type, e.player].join('|')\<close>\<close>

definition event_key :: "event \<Rightarrow> string" where
  "event_key e = js_join ''|'' [minute e, type e, player e]"

text \<open>
  The merge of a repeat sighting \<open>e\<close> into the stored record:
  \<open>if (!stored.assist && e.assist) stored.assist = e.assist;
    if (e.isOwnGoal) stored.isOwnGoal = true;\<close>
\<close>

definition merge_sighting :: "event \<Rightarrow> event \<Rightarrow> event" where
  "merge_sighting stored e =
     stored\<lparr> assist := (if \<not> truthy (assist stored) \<and> truthy (assist e)
                        then assist e else assist stored),
             isOwnGoal := (if truthy (isOwnGoal e) then JBool True else isOwnGoal stored) \<rparr>"

text \<open>
  \<open>byKey\<close> is a JavaScript \<open>Map\<close>, which iterates in insertion order: an association list
  with one entry per key, new keys appended, a stored record updated where it stands.
\<close>

type_synonym byKey = "(string \<times> event) list"

fun byKey_has :: "byKey \<Rightarrow> string \<Rightarrow> bool" where
  "byKey_has [] k = False"
| "byKey_has ((k', s) # rest) k = (k' = k \<or> byKey_has rest k)"

fun byKey_merge :: "string \<Rightarrow> event \<Rightarrow> byKey \<Rightarrow> byKey" where
  "byKey_merge k e [] = []"
| "byKey_merge k e ((k', s) # rest) =
     (if k' = k then (k', merge_sighting s e) # rest else (k', s) # byKey_merge k e rest)"

definition dedupe_step :: "byKey \<Rightarrow> event \<Rightarrow> byKey" where
  "dedupe_step byKey e =
     (let key = event_key e
      in if \<not> byKey_has byKey key then byKey @ [(key, e)]
         else byKey_merge key e byKey)"

definition dedupeEvents :: "event list \<Rightarrow> event list" where
  "dedupeEvents raw = map snd (foldl dedupe_step [] raw)"

text \<open>
  The reconciler in the words of its specification, for a given identity key: the first
  occurrence of a key is the canonical record; it adopts the first assist a later
  sighting of the key offers when it has none of its own, and it is marked as an own goal
  as soon as one later sighting is; the canonical records come in the order in which
  their keys were first seen.
\<close>

definition canonical :: "event \<Rightarrow> event list \<Rightarrow> event" where
  "canonical first later =
     first\<lparr> assist := (if truthy (assist first) then assist first
                       else (case List.find truthy (map assist later) of
                               Some a \<Rightarrow> a | None \<Rightarrow> assist first)),
            isOwnGoal := (if list_ex (\<lambda>e. truthy (isOwnGoal e)) later then JBool True
                          else isOwnGoal first) \<rparr>"

fun reconcile_by :: "(event \<Rightarrow> 'k) \<Rightarrow> event list \<Rightarrow> event list" where
  "reconcile_by key [] = []"
| "reconcile_by key (e # es) =
     canonical e (filter (\<lambda>x. key x = key e) es)
       # reconcile_by key (filter (\<lambda>x. key x \<noteq> key e) es)"

text \<open>
  The identity key of the specification is the tuple \<open>(minute, type, player)\<close>: events that
  differ in one of the three fields are distinct.
\<close>

definition sighting_key :: "event \<Rightarrow> jsval \<times> jsval \<times> jsval" where
  "sighting_key e = (minute e, type e, player e)"

definition spec_reconcile :: "event list \<Rightarrow> event list" where
  "spec_reconcile raw = reconcile_by sighting_key raw"

text \<open>
  Event lists whose tuples the joined text tells apart: no two different values of a
  field are written alike by \<open>join\<close>, and no minute and no type is written with a \<open>|\<close>.
\<close>

definition prints_apart :: "jsval list \<Rightarrow> bool" where
  "prints_apart vs \<longleftrightarrow>
     list_all (\<lambda>v. list_all (\<lambda>w. join_elem v = join_elem w \<longrightarrow> v = w) vs) vs"

definition bar_free :: "jsval \<Rightarrow> bool" where
  "bar_free v \<longleftrightarrow> CHR ''|'' \<notin> set (join_elem v)"

definition separable :: "event list \<Rightarrow> bool" where
  "separable raw \<longleftrightarrow>
     prints_apart (map minute raw) \<and> prints_apart (map type raw)
     \<and> prints_apart (map player raw)
     \<and> list_all (\<lambda>e. bar_free (minute e) \<and> bar_free (type e)) raw"

text \<open>
  A stored record merged with the sightings of its key among the events still to come;
  this states the invariant of the loop of \<open>dedupeEvents\<close>.
\<close>

definition merged :: "event list \<Rightarrow> string \<times> event \<Rightarrow> event" where
  "merged raw p = foldl merge_sighting (snd p) (filter (\<lambda>x. event_key x = fst p) raw)"

section \<open>The worker's own event filter (scrape-match-summary.js)\<close>

text \<open>\<open>self.findIndex(p)\<close>: the index of the first element satisfying \<open>p\<close>, or \<open>-1\<close>.\<close>

fun findIndex :: "('a \<Rightarrow> bool) \<Rightarrow> 'a list \<Rightarrow> int" where
  "findIndex p [] = - 1"
| "findIndex p (x # xs) =
     (if p x then 0 else (let i = findIndex p xs in if i < 0 then - 1 else i + 1))"

text \<open>
  \<open>events.filter((event, index, self) => index === self.findIndex(e =>
     e.minute === event.minute && e.type === event.type && e.player === event.player))\<close>.
  On the values of \<open>jsval\<close> strict equality is equality.
\<close>

definition same_sighting :: "event \<Rightarrow> event \<Rightarrow> bool" where
  "same_sighting event e \<longleftrightarrow>
     minute e = minute event \<and> type e = type event \<and> player e = player event"

definition worker_dedupeEvents :: "event list \<Rightarrow> event list" where
  "worker_dedupeEvents events =
     map snd (filter (\<lambda>(index, event). int index = findIndex (same_sighting event) events)
                     (enumerate 0 events))"

text \<open>
  The clean-up that precedes it in \<open>extractMatchSummary\<close>: an \<open>ownGoal\<close> becomes a
  \<open>goal\<close> flagged \<open>isOwnGoal\<close>; then \<open>const cleanedEvents = dedupeEvents(stripped)\<close>
  with the local function above.
\<close>

definition strip_event :: "event \<Rightarrow> event" where
  "strip_event e =
     (if type e = JStr ''ownGoal'' then e\<lparr> type := JStr ''goal'', isOwnGoal := JBool True \<rparr>
      else e)"

definition cleanedEvents :: "event list \<Rightarrow> event list" where
  "cleanedEvents events = worker_dedupeEvents (map strip_event events)"

section \<open>The store's match documents (schema.js, database.js)\<close>

text \<open>
  A property of a stored or serialised object is absent, \<open>null\<close> or has a value.
\<close>

datatype 'a field = Absent | Null | Val 'a

text \<open>
  A document of the \<open>matches\<close> collection, with the fields the pipeline reads or writes.
  \<open>createMatch\<close> does not set \<open>processingAttempts\<close>, \<open>scrapeId\<close> or \<open>updatedAt\<close>, so they
  can be missing; times are milliseconds, dates are kept as their text. The collection
  is the list of its documents in natural order.
\<close>

record match =
  matchId :: string
  internalId :: "string option"
  team :: string
  league :: string
  country :: string
  date :: "string option"
  scrapedAt :: nat
  scrapeId :: "int field"
  processingStatus :: string
  processingAttempts :: "nat option"
  createdAt :: "nat option"
  updatedAt :: "nat option"

text \<open>
  The sort key of \<open>.sort({ scrapeId: 1 })\<close>: a missing or null field sorts before every
  number (\<open>None < Some s\<close>).
\<close>

definition scrapeId_key :: "match \<Rightarrow> int option" where
  "scrapeId_key m = (case scrapeId m of Val s \<Rightarrow> Some s | _ \<Rightarrow> None)"

section \<open>The partitioner (export-batches.js)\<close>

text \<open>A shard holds the projections \<open>{ scrapeId, matchId }\<close> of its records.\<close>

record shard_row =
  row_scrapeId :: "int field"
  row_matchId :: string

definition project :: "match \<Rightarrow> shard_row" where
  "project m = \<lparr> row_scrapeId = scrapeId m, row_matchId = matchId m \<rparr>"

text \<open>
  \<open>const query = { processingStatus: 'pending' };
    if (START)             query.scrapeId = { $gte: START };
    if (EX_COUNTRY.length) query.country  = { $nin: EX_COUNTRY };
    if (EX_LEAGUE.length)  query.league   = { $nin: EX_LEAGUE };\<close>
\<close>

definition export_query :: "int \<Rightarrow> string list \<Rightarrow> string list \<Rightarrow> match \<Rightarrow> bool" where
  "export_query START EX_COUNTRY EX_LEAGUE m \<longleftrightarrow>
     processingStatus m = ''pending''
     \<and> (if START \<noteq> 0 then (case scrapeId m of Val s \<Rightarrow> START \<le> s | _ \<Rightarrow> False) else True)
     \<and> (if EX_COUNTRY \<noteq> [] then country m \<notin> set EX_COUNTRY else True)
     \<and> (if EX_LEAGUE \<noteq> [] then league m \<notin> set EX_LEAGUE else True)"

text \<open>The cursor: \<open>find(query).project({ scrapeId:1, matchId:1, _id:0 }).sort({ scrapeId:1 })\<close>.\<close>

definition export_cursor :: "int \<Rightarrow> string list \<Rightarrow> string list \<Rightarrow> match list \<Rightarrow> shard_row list" where
  "export_cursor START EX_COUNTRY EX_LEAGUE docs =
     map project (sort_key scrapeId_key (filter (export_query START EX_COUNTRY EX_LEAGUE) docs))"

definition padStart :: "nat \<Rightarrow> char \<Rightarrow> string \<Rightarrow> string" where
  "padStart n c s = replicate (n - length s) c @ s"

text \<open>
  \<open>updateMany({ matchId: { $in: ids } },
      { $set: { processingStatus: 'queued', updatedAt: new Date() } })\<close>
\<close>

definition updateMany_queued :: "string list \<Rightarrow> nat \<Rightarrow> match list \<Rightarrow> match list" where
  "updateMany_queued ids now docs =
     map (\<lambda>m. if matchId m \<in> set ids
              then m\<lparr> processingStatus := ''queued'', updatedAt := Some now \<rparr> else m) docs"

text \<open>
  The state of a run: the buffer, the file counter, the shard files written so far and
  the \<open>matches\<close> collection.
\<close>

record export_state =
  buf :: "shard_row list"
  fileIdx :: nat
  files :: "(string \<times> shard_row list) list"
  coll :: "match list"

text \<open>
  \<open>flush\<close>. The file system decides whether \<open>writeFile\<close> succeeds (\<open>fs_ok name\<close>); when it
  throws, the exception ends the script, and \<open>Inl\<close> carries the state it leaves behind.
  \<open>clock\<close> gives the time of the update that follows the \<open>i\<close>-th write.
\<close>

definition flush :: "(string \<Rightarrow> bool) \<Rightarrow> (nat \<Rightarrow> nat) \<Rightarrow> export_state \<Rightarrow> export_state + export_state" where
  "flush fs_ok clock st =
     (let idx = fileIdx st + 1;
          name = ''batches/batch-'' @ padStart 3 (CHR ''0'') (decimal idx) @ ''.json''
      in if \<not> fs_ok name then Inl (st\<lparr> fileIdx := idx \<rparr>)
         else Inr \<lparr> buf = [], fileIdx = idx, files = files st @ [(name, buf st)],
                    coll = updateMany_queued (map row_matchId (buf st)) (clock idx) (coll st) \<rparr>)"

text \<open>
  \<open>for await (const m of cur) { buf.push(m); if (buf.length===LIMIT) await flush(); }\<close>
\<close>

fun export_loop :: "(string \<Rightarrow> bool) \<Rightarrow> (nat \<Rightarrow> nat) \<Rightarrow> int \<Rightarrow> shard_row list \<Rightarrow> export_state
                      \<Rightarrow> export_state + export_state" where
  "export_loop fs_ok clock LIMIT [] st = Inr st"
| "export_loop fs_ok clock LIMIT (m # cur) st =
     (let st1 = st\<lparr> buf := buf st @ [m] \<rparr>
      in if int (length (buf st1)) = LIMIT
         then (case flush fs_ok clock st1 of
                 Inl aborted \<Rightarrow> Inl aborted
               | Inr st2 \<Rightarrow> export_loop fs_ok clock LIMIT cur st2)
         else export_loop fs_ok clock LIMIT cur st1)"

text \<open>The whole script, ending with \<open>if (buf.length) await flush();\<close>.\<close>

definition export_batches ::
  "(string \<Rightarrow> bool) \<Rightarrow> (nat \<Rightarrow> nat) \<Rightarrow> int \<Rightarrow> int \<Rightarrow> string list \<Rightarrow> string list \<Rightarrow> match list
     \<Rightarrow> export_state + export_state" where
  "export_batches fs_ok clock LIMIT START EX_COUNTRY EX_LEAGUE docs =
     (case export_loop fs_ok clock LIMIT (export_cursor START EX_COUNTRY EX_LEAGUE docs)
             \<lparr> buf = [], fileIdx = 0, files = [], coll = docs \<rparr> of
        Inl aborted \<Rightarrow> Inl aborted
      | Inr st \<Rightarrow> if buf st \<noteq> [] then flush fs_ok clock st else Inr st)"

definition shards :: "export_state \<Rightarrow> shard_row list list" where
  "shards st = map snd (files st)"

text \<open>
  What the specification asks of the partition: groups of exactly \<open>n\<close> records, the last
  one possibly smaller (with \<open>n = 0\<close> standing for a limit no buffer ever reaches).
\<close>

function chunks :: "nat \<Rightarrow> 'a list \<Rightarrow> 'a list list" where
  "chunks n xs =
     (if xs = [] then []
      else if n = 0 \<or> length xs \<le> n then [xs]
      else take n xs # chunks n (drop n xs))"
  by pat_completeness auto
termination
  by (relation "measure (\<lambda>(n, xs). length xs)") auto

declare chunks.simps [simp del]

text \<open>
  The collection after a run, against the collection before it: a document whose
  \<open>matchId\<close> is in a persisted shard file is marked \<open>queued\<close> (with a new \<open>updatedAt\<close>),
  every other document is as it was.
\<close>

definition marked :: "string list \<Rightarrow> match \<Rightarrow> match \<Rightarrow> bool" where
  "marked ids m m' \<longleftrightarrow>
     (if matchId m \<in> set ids
      then m' = m\<lparr> processingStatus := ''queued'', updatedAt := updatedAt m' \<rparr>
      else m' = m)"

definition queued_only_persisted :: "match list \<Rightarrow> export_state \<Rightarrow> bool" where
  "queued_only_persisted docs st \<longleftrightarrow>
     list_all2 (marked (map row_matchId (concat (shards st)))) docs (coll st)"

definition final_state :: "export_state + export_state \<Rightarrow> export_state" where
  "final_state r = (case r of Inl aborted \<Rightarrow> aborted | Inr st \<Rightarrow> st)"

text \<open>The buffer still to be flushed, as the list of shards it will make.\<close>

definition rest_shard :: "export_state \<Rightarrow> shard_row list list" where
  "rest_shard st = (if buf st = [] then [] else [buf st])"

section \<open>Result files\<close>

text \<open>
  \<open>dateInfo = { parsedDate: matchDate, properInternalId }\<close>; in the file the date is its
  ISO text, or \<open>null\<close> for an invalid \<open>Date\<close>.
\<close>

record dateInfo =
  parsedDate :: "string option"
  properInternalId :: string

text \<open>
  A details object as \<open>createMatchDetails\<close> builds it. Six of its properties are always
  there and are grouped as its body (\<open>basicInfo\<close> and \<open>teams\<close> as their JSON text);
  \<open>internalId\<close> is \<open>undefined\<close> for a match without a parsed date and is then left out of
  the file.
\<close>

record details_body =
  d_basicInfo :: string
  d_teams :: string
  d_events :: "event list"
  d_processedAt :: nat
  d_processingStatus :: string
  d_createdAt :: nat

record details =
  d_matchId :: string
  d_internalId :: "string option"
  d_body :: details_body

text \<open>An entry of a result file: \<open>{matchId, scrapeId, details?, dateInfo?, error?}\<close>.\<close>

record result_entry =
  r_matchId :: string
  r_scrapeId :: "int field"
  r_details :: "details field"
  r_dateInfo :: "dateInfo field"
  r_error :: jsval

section \<open>The shard workers (scrape-batch.js, scrape-batch-with-mem.js)\<close>

text \<open>
  What \<open>extractMatchSummary\<close> returns; the browser session that produces it is outside
  the model, and \<open>scrape matchId\<close> is either the message of the error it threw or the
  summary.
\<close>

record summary =
  s_basicInfo :: string
  s_events :: "event list option"
  s_teams :: string
  s_dateInfo :: "dateInfo option"

text \<open>
  \<open>createMatchDetails({ matchId, internalId: summary.dateInfo?.properInternalId,
     basicInfo: summary.basicInfo, teams: summary.teams, events: summary.events || [],
     processingStatus: 'complete' })\<close>, with \<open>processedAt\<close> and \<open>createdAt\<close> set to the
  current time by the defaults.
\<close>

definition createMatchDetails :: "nat \<Rightarrow> string \<Rightarrow> summary \<Rightarrow> details" where
  "createMatchDetails now mid summary =
     \<lparr> d_matchId = mid,
       d_internalId = map_option properInternalId (s_dateInfo summary),
       d_body = \<lparr> d_basicInfo = s_basicInfo summary, d_teams = s_teams summary,
                  d_events = (case s_events summary of Some es \<Rightarrow> es | None \<Rightarrow> []),
                  d_processedAt = now, d_processingStatus = ''complete'',
                  d_createdAt = now \<rparr> \<rparr>"

text \<open>
  The body of the loop of scrape-batch.js:
  \<open>results.push({matchId,scrapeId,details,dateInfo:summary.dateInfo})\<close> on success,
  \<open>results.push({matchId,scrapeId,error:err.message})\<close> in the \<open>catch\<close>.
\<close>

definition worker_entry :: "nat \<Rightarrow> (string \<Rightarrow> string + summary) \<Rightarrow> shard_row \<Rightarrow> result_entry" where
  "worker_entry now scrape row =
     (case scrape (row_matchId row) of
        Inr summary \<Rightarrow>
          \<lparr> r_matchId = row_matchId row, r_scrapeId = row_scrapeId row,
            r_details = Val (createMatchDetails now (row_matchId row) summary),
            r_dateInfo = (case s_dateInfo summary of Some di \<Rightarrow> Val di | None \<Rightarrow> Null),
            r_error = JUndefined \<rparr>
      | Inl message \<Rightarrow>
          \<lparr> r_matchId = row_matchId row, r_scrapeId = row_scrapeId row,
            r_details = Absent, r_dateInfo = Absent, r_error = JStr message \<rparr>)"

fun batch_loop ::
  "(nat \<Rightarrow> nat) \<Rightarrow> (string \<Rightarrow> string + summary) \<Rightarrow> shard_row list \<Rightarrow> result_entry list
     \<Rightarrow> result_entry list" where
  "batch_loop clock scrape [] results = results"
| "batch_loop clock scrape (row # batch) results =
     batch_loop clock scrape batch
       (results @ [worker_entry (clock (length results)) scrape row])"

definition scrape_batch ::
  "(nat \<Rightarrow> nat) \<Rightarrow> (string \<Rightarrow> string + summary) \<Rightarrow> shard_row list \<Rightarrow> result_entry list" where
  "scrape_batch clock scrape batch = batch_loop clock scrape batch []"

text \<open>
  scrape-batch-with-mem.js builds the same details and then pushes
  \<open>{ matchId, scrapeId }\<close> on success; \<open>--sample n\<close> cuts the batch to its first \<open>n\<close> rows.
\<close>

definition mem_entry :: "(string \<Rightarrow> string + summary) \<Rightarrow> shard_row \<Rightarrow> result_entry" where
  "mem_entry scrape row =
     (case scrape (row_matchId row) of
        Inr summary \<Rightarrow>
          \<lparr> r_matchId = row_matchId row, r_scrapeId = row_scrapeId row,
            r_details = Absent, r_dateInfo = Absent, r_error = JUndefined \<rparr>
      | Inl message \<Rightarrow>
          \<lparr> r_matchId = row_matchId row, r_scrapeId = row_scrapeId row,
            r_details = Absent, r_dateInfo = Absent, r_error = JStr message \<rparr>)"

fun mem_loop :: "(string \<Rightarrow> string + summary) \<Rightarrow> shard_row list \<Rightarrow> result_entry list
                   \<Rightarrow> result_entry list" where
  "mem_loop scrape [] results = results"
| "mem_loop scrape (row # batch) results = mem_loop scrape batch (results @ [mem_entry scrape row])"

definition scrape_batch_with_mem ::
  "nat \<Rightarrow> (string \<Rightarrow> string + summary) \<Rightarrow> shard_row list \<Rightarrow> result_entry list" where
  "scrape_batch_with_mem SAMPLE scrape batch =
     mem_loop scrape (if SAMPLE > 0 then take SAMPLE batch else batch) []"

text \<open>The two shapes of an entry, by the properties it carries.\<close>

definition success_shape :: "result_entry \<Rightarrow> bool" where
  "success_shape r \<longleftrightarrow> r_details r \<noteq> Absent \<and> r_dateInfo r \<noteq> Absent \<and> r_error r = JUndefined"

definition failure_shape :: "result_entry \<Rightarrow> bool" where
  "failure_shape r \<longleftrightarrow> r_details r = Absent \<and> r_dateInfo r = Absent \<and> r_error r \<noteq> JUndefined"

definition exactly_one :: "result_entry \<Rightarrow> bool" where
  "exactly_one r \<longleftrightarrow> (r_details r \<noteq> Absent) \<noteq> (r_error r \<noteq> JUndefined)"

text \<open>What each worker leaves in an entry, given how the scrape of its match went.\<close>

definition worker_outcome :: "(string \<Rightarrow> string + summary) \<Rightarrow> result_entry \<Rightarrow> bool" where
  "worker_outcome scrape r =
     (case scrape (r_matchId r) of
        Inr summary \<Rightarrow> success_shape r
      | Inl message \<Rightarrow> failure_shape r \<and> r_error r = JStr message)"

definition mem_outcome :: "(string \<Rightarrow> string + summary) \<Rightarrow> result_entry \<Rightarrow> bool" where
  "mem_outcome scrape r =
     (case scrape (r_matchId r) of
        Inr summary \<Rightarrow> r_details r = Absent \<and> r_dateInfo r = Absent \<and> r_error r = JUndefined
      | Inl message \<Rightarrow> failure_shape r \<and> r_error r = JStr message)"

section \<open>The importer (import-artifacts.js)\<close>

text \<open>
  A document of \<open>match_details\<close>. A document inserted by an upsert that sets no details
  has neither \<open>internalId\<close> nor a body.
\<close>

record details_doc =
  dd_matchId :: string
  dd_internalId :: "string option"
  dd_body :: "details_body option"
  dd_updatedAt :: nat

record import_state =
  matches :: "match list"
  match_details :: "details_doc list"
  totalProcessed :: nat
  totalSuccessful :: nat
  totalErrors :: nat

datatype js_error = TypeError | RangeError

text \<open>\<open>result.dateInfo?.parsedDate || null\<close>\<close>

definition entry_date :: "result_entry \<Rightarrow> string option" where
  "entry_date r =
     (case r_dateInfo r of
        Val di \<Rightarrow> (case parsedDate di of Some s \<Rightarrow> if s \<noteq> [] then Some s else None
                                         | None \<Rightarrow> None)
      | _ \<Rightarrow> None)"

text \<open>
  \<open>result.dateInfo?.properInternalId || result.details.internalId\<close>: reading
  \<open>internalId\<close> of a missing \<open>details\<close> throws a TypeError; an \<open>undefined\<close> result is
  stored as \<open>null\<close>.
\<close>

definition details_internalId :: "result_entry \<Rightarrow> js_error + string option" where
  "details_internalId r = (case r_details r of Val d \<Rightarrow> Inr (d_internalId d) | _ \<Rightarrow> Inl TypeError)"

definition entry_internalId :: "result_entry \<Rightarrow> js_error + string option" where
  "entry_internalId r =
     (case r_dateInfo r of
        Val di \<Rightarrow> if properInternalId di \<noteq> [] then Inr (Some (properInternalId di))
                  else details_internalId r
      | _ \<Rightarrow> details_internalId r)"

text \<open>\<open>updateOne(filter, update)\<close> changes the first document that matches the filter.\<close>

fun update_first :: "('a \<Rightarrow> bool) \<Rightarrow> ('a \<Rightarrow> 'a) \<Rightarrow> 'a list \<Rightarrow> 'a list" where
  "update_first p f [] = []"
| "update_first p f (x # xs) = (if p x then f x # xs else x # update_first p f xs)"

definition set_complete :: "string option \<Rightarrow> string option \<Rightarrow> nat \<Rightarrow> match \<Rightarrow> match" where
  "set_complete d iid now m =
     m\<lparr> processingStatus := ''complete'', date := d, internalId := iid, updatedAt := Some now \<rparr>"

text \<open>
  \<open>{ $set: { ...result.details, updatedAt: new Date() } }\<close>: every property of the
  details object is set, a property it does not have is left as it is.
\<close>

definition set_details :: "details field \<Rightarrow> nat \<Rightarrow> details_doc \<Rightarrow> details_doc" where
  "set_details df now doc =
     (case df of
        Val d \<Rightarrow> doc\<lparr> dd_matchId := d_matchId d,
                      dd_internalId := (case d_internalId d of Some i \<Rightarrow> Some i
                                                              | None \<Rightarrow> dd_internalId doc),
                      dd_body := Some (d_body d), dd_updatedAt := now \<rparr>
      | _ \<Rightarrow> doc\<lparr> dd_updatedAt := now \<rparr>)"

text \<open>
  With \<open>{ upsert: true }\<close> and no matching document, a document is inserted: the filter's
  \<open>matchId\<close>, then the update applied to it.
\<close>

definition upsert_details :: "string \<Rightarrow> details field \<Rightarrow> nat \<Rightarrow> details_doc list \<Rightarrow> details_doc list" where
  "upsert_details mid df now docs =
     (if list_ex (\<lambda>d. dd_matchId d = mid) docs
      then update_first (\<lambda>d. dd_matchId d = mid) (set_details df now) docs
      else docs @ [set_details df now
                     \<lparr> dd_matchId = mid, dd_internalId = None, dd_body = None, dd_updatedAt = now \<rparr>])"

text \<open>
  The body of the loop over the entries of a file. The update document is evaluated
  before the first call to the store, so the TypeError leaves the store as it is; the
  \<open>catch\<close> counts it as an error.
\<close>

definition import_entry :: "(nat \<Rightarrow> nat) \<Rightarrow> import_state \<Rightarrow> result_entry \<Rightarrow> import_state" where
  "import_entry clock st r =
     (let st1 = st\<lparr> totalProcessed := totalProcessed st + 1 \<rparr>;
          now = clock (totalProcessed st1)
      in if truthy (r_error r) then st1\<lparr> totalErrors := totalErrors st1 + 1 \<rparr>
         else (case entry_internalId r of
                 Inl err \<Rightarrow> st1\<lparr> totalErrors := totalErrors st1 + 1 \<rparr>
               | Inr iid \<Rightarrow>
                   st1\<lparr> matches := update_first (\<lambda>m. matchId m = r_matchId r)
                                      (set_complete (entry_date r) iid now) (matches st1),
                        match_details := upsert_details (r_matchId r) (r_details r) now
                                           (match_details st1),
                        totalSuccessful := totalSuccessful st1 + 1 \<rparr>))"

definition import_file :: "(nat \<Rightarrow> nat) \<Rightarrow> import_state \<Rightarrow> result_entry list \<Rightarrow> import_state" where
  "import_file clock st results = foldl (import_entry clock) st results"

text \<open>
  The store modulo timestamps: \<open>updatedAt\<close> is the only field into which the importer
  writes the time.
\<close>

definition untimed_matches :: "import_state \<Rightarrow> match list" where
  "untimed_matches st = map (\<lambda>m. m\<lparr> updatedAt := None \<rparr>) (matches st)"

definition untimed_details :: "import_state \<Rightarrow> details_doc list" where
  "untimed_details st = map (\<lambda>d. d\<lparr> dd_updatedAt := 0 \<rparr>) (match_details st)"

text \<open>
  The entries a worker writes carry in their details the \<open>matchId\<close> of the entry
  (\<open>createMatchDetails({ matchId, ... })\<close>).
\<close>

definition worker_shaped :: "result_entry \<Rightarrow> bool" where
  "worker_shaped r \<longleftrightarrow> (case r_details r of Val d \<Rightarrow> d_matchId d = r_matchId r | _ \<Rightarrow> True)"

text \<open>\<open>findOne({ matchId })\<close>: the first document with that identifier.\<close>

definition find_match :: "string \<Rightarrow> match list \<Rightarrow> match option" where
  "find_match mid docs = List.find (\<lambda>m. matchId m = mid) docs"

definition find_details :: "string \<Rightarrow> details_doc list \<Rightarrow> details_doc option" where
  "find_details mid docs = List.find (\<lambda>d. dd_matchId d = mid) docs"

text \<open>An importer that has not counted anything yet, on a given store.\<close>

definition import_start :: "match list \<Rightarrow> details_doc list \<Rightarrow> import_state" where
  "import_start ms ds =
     \<lparr> matches = ms, match_details = ds, totalProcessed = 0, totalSuccessful = 0,
       totalErrors = 0 \<rparr>"

text \<open>
  An entry takes effect on the store when it is not skipped for its \<open>error\<close> and building
  the update does not throw.
\<close>

definition takes_effect :: "result_entry \<Rightarrow> bool" where
  "takes_effect r \<longleftrightarrow>
     \<not> truthy (r_error r) \<and> (case entry_internalId r of Inr iid \<Rightarrow> True | Inl err \<Rightarrow> False)"

text \<open>
  A run of updates on a collection, an update being the \<open>updateOne\<close> of the first
  document with the key of its request, and a run of upserts, where a request whose key
  is not in the collection appends a document made from the key.
\<close>

definition update_one :: "('a \<Rightarrow> 'k) \<Rightarrow> ('r \<Rightarrow> 'k) \<Rightarrow> ('r \<Rightarrow> 'a \<Rightarrow> 'a) \<Rightarrow> 'a list \<Rightarrow> 'r \<Rightarrow> 'a list" where
  "update_one key rk op xs r = update_first (\<lambda>x. key x = rk r) (op r) xs"

definition upsert_one ::
  "('a \<Rightarrow> 'k) \<Rightarrow> ('r \<Rightarrow> 'k) \<Rightarrow> ('r \<Rightarrow> 'a \<Rightarrow> 'a) \<Rightarrow> ('k \<Rightarrow> 'a) \<Rightarrow> 'a list \<Rightarrow> 'r \<Rightarrow> 'a list" where
  "upsert_one key rk op base xs r =
     (if list_ex (\<lambda>x. key x = rk r) xs then update_first (\<lambda>x. key x = rk r) (op r) xs
      else xs @ [op r (base (rk r))])"

text \<open>The updates of one document by a list of requests, in order.\<close>

definition apply_ops :: "('r \<Rightarrow> 'a \<Rightarrow> 'a) \<Rightarrow> 'r list \<Rightarrow> 'a \<Rightarrow> 'a" where
  "apply_ops op rs x = foldl (\<lambda>y r. op r y) x rs"

text \<open>What an entry that takes effect writes, with the timestamps left out.\<close>

definition entry_iid :: "result_entry \<Rightarrow> string option" where
  "entry_iid r = (case entry_internalId r of Inr iid \<Rightarrow> iid | Inl err \<Rightarrow> None)"

definition untimed_complete :: "result_entry \<Rightarrow> match \<Rightarrow> match" where
  "untimed_complete r m =
     m\<lparr> processingStatus := ''complete'', date := entry_date r, internalId := entry_iid r,
        updatedAt := None \<rparr>"

definition untimed_set_details :: "result_entry \<Rightarrow> details_doc \<Rightarrow> details_doc" where
  "untimed_set_details r doc = set_details (r_details r) 0 doc"

definition new_details_doc :: "string \<Rightarrow> details_doc" where
  "new_details_doc mid =
     \<lparr> dd_matchId = mid, dd_internalId = None, dd_body = None, dd_updatedAt = 0 \<rparr>"

text \<open>An assignment to the fields of a details document: the optional ones are left alone.\<close>

definition assign_details ::
  "string option \<Rightarrow> string option \<Rightarrow> details_body option \<Rightarrow> details_doc \<Rightarrow> details_doc" where
  "assign_details a b c doc =
     doc\<lparr> dd_matchId := (case a of Some k \<Rightarrow> k | None \<Rightarrow> dd_matchId doc),
          dd_internalId := (case b of Some i \<Rightarrow> Some i | None \<Rightarrow> dd_internalId doc),
          dd_body := (case c of Some x \<Rightarrow> Some x | None \<Rightarrow> dd_body doc),
          dd_updatedAt := 0 \<rparr>"

section \<open>Bulk insert (database.js, saveMatches)\<close>

text \<open>
  What the driver reports when \<open>insertMany\<close> throws: \<open>err.code\<close> and
  \<open>err.result?.result?.nInserted\<close>.
\<close>

record driver_error =
  err_code :: jsval
  err_nInserted :: "nat option"

text \<open>
  \<open>insertMany(docs, { ordered: false })\<close> on a collection with a unique index, taken to
  be on \<open>matchId\<close>: every document is tried, a document whose key is already stored is
  skipped. The result is the collection and the number of documents inserted.
\<close>

fun insert_unordered :: "match list \<Rightarrow> match list \<Rightarrow> match list \<times> nat" where
  "insert_unordered docs [] = (docs, 0)"
| "insert_unordered docs (d # ds) =
     (if matchId d \<in> matchId ` set docs then insert_unordered docs ds
      else (case insert_unordered (docs @ [d]) ds of (docs', n) \<Rightarrow> (docs', n + 1)))"

text \<open>
  The call as the driver answers it: with the count when every document went in, with a
  bulk write error of code 11000 carrying the count when some were duplicates. \<open>fault\<close>
  is a failure of the store that is no write conflict (a lost connection, say); it is
  thrown before anything is written.
\<close>

definition insertMany ::
  "driver_error option \<Rightarrow> match list \<Rightarrow> match list \<Rightarrow> match list \<times> (driver_error + nat)" where
  "insertMany fault docs new =
     (case fault of
        Some err \<Rightarrow> (docs, Inl err)
      | None \<Rightarrow>
          (case insert_unordered docs new of
             (docs', n) \<Rightarrow>
               if n = length new then (docs', Inr n)
               else (docs', Inl \<lparr> err_code = JNum 11000, err_nInserted = Some n \<rparr>)))"

datatype 'a js_arg = NotAnArray | JsArray "'a list"

text \<open>
  \<open>saveMatches\<close>: \<open>Inr\<close> is the returned count, \<open>Inl\<close> the error thrown on to the caller.
\<close>

definition saveMatches ::
  "nat \<Rightarrow> driver_error option \<Rightarrow> match list \<Rightarrow> match js_arg \<Rightarrow> match list \<times> (driver_error + nat)" where
  "saveMatches now fault docs arg =
     (case arg of
        NotAnArray \<Rightarrow> (docs, Inr 0)
      | JsArray ms \<Rightarrow>
          if length ms = 0 then (docs, Inr 0)
          else (case insertMany fault docs (map (\<lambda>m. m\<lparr> createdAt := Some now \<rparr>) ms) of
                  (docs', Inr insertedCount) \<Rightarrow> (docs', Inr insertedCount)
                | (docs', Inl err) \<Rightarrow>
                    if err_code err = JNum 11000
                    then (docs', Inr (case err_nInserted err of Some n \<Rightarrow> n | None \<Rightarrow> 0))
                    else (docs', Inl err)))"

section \<open>Selection for processing (database.js, getMatchesForProcessing)\<close>

datatype status_cond = Single string | Among "string list"

text \<open>The options after their defaults have been filled in.\<close>

record options =
  opt_status :: status_cond
  opt_country :: "string option"
  opt_league :: "string option"
  opt_team :: "string option"
  opt_limit :: int
  opt_maxAttempts :: int
  opt_excludePairs :: "string list option"

definition default_options :: options where
  "default_options =
     \<lparr> opt_status = Single ''pending'', opt_country = None, opt_league = None, opt_team = None,
       opt_limit = 100, opt_maxAttempts = 3, opt_excludePairs = None \<rparr>"

text \<open>\<open>s.split(c)\<close> for a one-character separator.\<close>

fun split_on :: "char \<Rightarrow> string \<Rightarrow> string list" where
  "split_on c [] = [[]]"
| "split_on c (x # xs) =
     (if x = c then [] # split_on c xs
      else (case split_on c xs of p # ps \<Rightarrow> (x # p) # ps | [] \<Rightarrow> [[x]]))"

text \<open>
  \<open>const [excludeCountry, excludeLeague] = pair.split('-');
    return { country: excludeCountry, league: excludeLeague };\<close>
  A pair without a dash gives \<open>league: undefined\<close>, which matches no document that has a
  league.
\<close>

definition exclude_condition :: "string \<Rightarrow> string \<times> string option" where
  "exclude_condition pair =
     (case split_on (CHR ''-'') pair of
        c # l # rest \<Rightarrow> (c, Some l)
      | [c] \<Rightarrow> (c, None)
      | [] \<Rightarrow> ([], None))"

definition condition_matches :: "string \<times> string option \<Rightarrow> match \<Rightarrow> bool" where
  "condition_matches cond m \<longleftrightarrow>
     country m = fst cond \<and> (case snd cond of Some l \<Rightarrow> league m = l | None \<Rightarrow> False)"

definition equals_if_set :: "string option \<Rightarrow> string \<Rightarrow> bool" where
  "equals_if_set opt v \<longleftrightarrow> (case opt of Some s \<Rightarrow> if s \<noteq> [] then v = s else True | None \<Rightarrow> True)"

text \<open>
  The query: status, \<open>processingAttempts: { $lt: maxAttempts }\<close> (which a document without
  the field does not satisfy), the optional equalities, and \<open>$nor\<close> over the excluded
  pairs.
\<close>

definition processing_query :: "options \<Rightarrow> match \<Rightarrow> bool" where
  "processing_query opts m \<longleftrightarrow>
     (case opt_status opts of Single s \<Rightarrow> processingStatus m = s
                            | Among ss \<Rightarrow> processingStatus m \<in> set ss)
     \<and> (case processingAttempts m of Some a \<Rightarrow> int a < opt_maxAttempts opts | None \<Rightarrow> False)
     \<and> equals_if_set (opt_country opts) (country m)
     \<and> equals_if_set (opt_league opts) (league m)
     \<and> equals_if_set (opt_team opts) (team m)
     \<and> (case opt_excludePairs opts of
           Some pairs \<Rightarrow> \<not> list_ex (\<lambda>pair. condition_matches (exclude_condition pair) m) pairs
         | None \<Rightarrow> True)"

text \<open>
  \<open>const sampleMatch = await db.collection('matches').findOne({}, ...);
    const sortCriteria = sampleMatch && sampleMatch.scrapeId !== undefined
      ? { scrapeId: 1 } : { scrapedAt: 1 };\<close>
  The sample is the first document of the collection.
\<close>

definition sorts_by_scrapeId :: "match list \<Rightarrow> bool" where
  "sorts_by_scrapeId docs = (case docs of [] \<Rightarrow> False | sampleMatch # rest \<Rightarrow> scrapeId sampleMatch \<noteq> Absent)"

text \<open>\<open>cursor.limit(n)\<close>: no limit for \<open>0\<close>, and \<open>-n\<close> limits like \<open>n\<close>.\<close>

definition cursor_limit :: "int \<Rightarrow> 'a list \<Rightarrow> 'a list" where
  "cursor_limit n xs = (if n = 0 then xs else take (nat \<bar>n\<bar>) xs)"

definition getMatchesForProcessing :: "options \<Rightarrow> match list \<Rightarrow> match list" where
  "getMatchesForProcessing opts docs =
     cursor_limit (opt_limit opts)
       (if sorts_by_scrapeId docs
        then sort_key scrapeId_key (filter (processing_query opts) docs)
        else sort_key scrapedAt (filter (processing_query opts) docs))"

text \<open>
  Ascending order on the \<open>scrapeId\<close> field itself: numbers by their value, and a record
  without a number before every record that has one.
\<close>

fun scrapeId_le :: "int field \<Rightarrow> int field \<Rightarrow> bool" where
  "scrapeId_le (Val a) (Val b) \<longleftrightarrow> a \<le> b"
| "scrapeId_le (Val a) Absent \<longleftrightarrow> False"
| "scrapeId_le (Val a) Null \<longleftrightarrow> False"
| "scrapeId_le Absent b \<longleftrightarrow> True"
| "scrapeId_le Null b \<longleftrightarrow> True"

section \<open>Internal identifiers (utils.js, createInternalId)\<close>

text \<open>
  The \<open>date\<close> argument: something that is no \<open>Date\<close> (\<open>null\<close> and \<open>undefined\<close> among them),
  an invalid \<open>Date\<close>, or a \<open>Date\<close> with its UTC fields.
\<close>

record utc =
  utc_year :: int
  utc_month :: nat
  utc_day :: nat
  utc_hours :: nat
  utc_minutes :: nat
  utc_seconds :: nat
  utc_ms :: nat

datatype js_date = NotADate | InvalidDate | ValidDate utc

definition zero_pad :: "nat \<Rightarrow> nat \<Rightarrow> string" where
  "zero_pad w n = padStart w (CHR ''0'') (decimal n)"

text \<open>The decimal digits, of which years, months and days are written.\<close>

definition is_digit :: "char \<Rightarrow> bool" where
  "is_digit c \<longleftrightarrow> c \<in> set ''0123456789''"

text \<open>
  \<open>Date.prototype.toISOString\<close>: \<open>YYYY-MM-DDTHH:mm:ss.sssZ\<close>, with a sign and six digits
  for a year outside 0 to 9999, and a RangeError for an invalid date.
\<close>

definition iso_year :: "int \<Rightarrow> string" where
  "iso_year y =
     (if 0 \<le> y \<and> y \<le> 9999 then zero_pad 4 (nat y)
      else (if y < 0 then CHR ''-'' else CHR ''+'') # zero_pad 6 (nat \<bar>y\<bar>))"

definition toISOString :: "js_date \<Rightarrow> js_error + string" where
  "toISOString d =
     (case d of
        NotADate \<Rightarrow> Inl TypeError
      | InvalidDate \<Rightarrow> Inl RangeError
      | ValidDate u \<Rightarrow>
          Inr (iso_year (utc_year u) @ ''-'' @ zero_pad 2 (utc_month u) @ ''-''
               @ zero_pad 2 (utc_day u) @ ''T'' @ zero_pad 2 (utc_hours u) @ '':''
               @ zero_pad 2 (utc_minutes u) @ '':'' @ zero_pad 2 (utc_seconds u) @ ''.''
               @ zero_pad 3 (utc_ms u) @ ''Z''))"

text \<open>
  \<open>toLowerCase\<close> on the characters of \<open>string\<close>: the letters A to Z go to a to z; no other
  character of this type has a lower case in \<open>[a-z0-9]\<close>.
\<close>

definition toLowerCase :: "char \<Rightarrow> char" where
  "toLowerCase c =
     (if 65 \<le> (of_char c :: nat) \<and> (of_char c :: nat) \<le> 90 then char_of (of_char c + 32 :: nat)
      else c)"

definition is_az09 :: "char \<Rightarrow> bool" where
  "is_az09 c \<longleftrightarrow>
     (97 \<le> (of_char c :: nat) \<and> (of_char c :: nat) \<le> 122)
     \<or> (48 \<le> (of_char c :: nat) \<and> (of_char c :: nat) \<le> 57)"

text \<open>\<open>const normalize = str => str?.toLowerCase().replace(/[^a-z0-9]/g, '') || '';\<close>\<close>

definition normalize :: "string option \<Rightarrow> string" where
  "normalize str = (case str of None \<Rightarrow> [] | Some s \<Rightarrow> filter is_az09 (map toLowerCase s))"

text \<open>
  \<open>let datePart = '';
    if (date instanceof Date && !isNaN(date.getTime()))
      datePart = date.toISOString().split('T')[0].replace(/-/g, '');\<close>
\<close>

definition datePart :: "js_date \<Rightarrow> js_error + string" where
  "datePart d =
     (case d of
        ValidDate u \<Rightarrow>
          (case toISOString d of
             Inl err \<Rightarrow> Inl err
           | Inr s \<Rightarrow> Inr (filter (\<lambda>c. c \<noteq> CHR ''-'') (hd (split_on (CHR ''T'') s))))
      | _ \<Rightarrow> Inr [])"

definition createInternalId :: "string option \<Rightarrow> string option \<Rightarrow> js_date \<Rightarrow> js_error + string" where
  "createInternalId homeTeam awayTeam d =
     (case datePart d of
        Inl err \<Rightarrow> Inl err
      | Inr dp \<Rightarrow> Inr (dp @ ''_'' @ normalize homeTeam @ ''_vs_'' @ normalize awayTeam))"

section \<open>Example data\<close>

text \<open>A match document for examples: identifier, sequence number, scrape time, status.\<close>

definition example_match :: "string \<Rightarrow> int field \<Rightarrow> nat \<Rightarrow> string \<Rightarrow> match" where
  "example_match mid sid t status =
     \<lparr> matchId = mid, internalId = None, team = ''t'', league = ''l'', country = ''c'',
       date = None, scrapedAt = t, scrapeId = sid, processingStatus = status,
       processingAttempts = Some 0, createdAt = None, updatedAt = None \<rparr>"

text \<open>Example data: five pending matches, and entries of a result file.\<close>

definition five_pending :: "match list" where
  "five_pending =
     [example_match ''m1'' (Val 1) 10 ''pending'', example_match ''m2'' (Val 2) 20 ''pending'',
      example_match ''m3'' (Val 3) 30 ''pending'', example_match ''m4'' (Val 4) 40 ''pending'',
      example_match ''m5'' (Val 5) 50 ''pending'']"

definition example_details :: "string \<Rightarrow> string option \<Rightarrow> details" where
  "example_details mid iid =
     \<lparr> d_matchId = mid, d_internalId = iid,
       d_body = \<lparr> d_basicInfo = ''{}'', d_teams = ''{}'', d_events = [], d_processedAt = 7,
                  d_processingStatus = ''complete'', d_createdAt = 7 \<rparr> \<rparr>"

definition success_entry :: "string \<Rightarrow> int \<Rightarrow> dateInfo field \<Rightarrow> string option \<Rightarrow> result_entry" where
  "success_entry mid sid di iid =
     \<lparr> r_matchId = mid, r_scrapeId = Val sid, r_details = Val (example_details mid iid),
       r_dateInfo = di, r_error = JUndefined \<rparr>"

definition error_entry :: "string \<Rightarrow> int \<Rightarrow> string \<Rightarrow> result_entry" where
  "error_entry mid sid message =
     \<lparr> r_matchId = mid, r_scrapeId = Val sid, r_details = Absent, r_dateInfo = Absent,
       r_error = JStr message \<rparr>"

definition example_summary :: summary where
  "example_summary =
     \<lparr> s_basicInfo = ''{}'', s_events = None, s_teams = ''{}'', s_dateInfo = None \<rparr>"

section \<open>Properties of the event reconciler\<close>

lemma byKey_has_iff: "byKey_has b k \<longleftrightarrow> k \<in> fst ` set b"
  by (induction b) auto

lemma byKey_merge_keys: "map fst (byKey_merge k e b) = map fst b"
  by (induction b) auto

lemma byKey_merge_map:
  "distinct (map fst b) \<Longrightarrow> event_key e \<in> fst ` set b \<Longrightarrow>
   map (merged es) (byKey_merge (event_key e) e b) = map (merged (e # es)) b"
proof (induction b)
  case Nil
  then show ?case by simp
next
  case (Cons p b)
  obtain k s where p: "p = (k, s)" by (cases p)
  show ?case
  proof (cases "k = event_key e")
    case True
    with Cons.prems p have "event_key e \<notin> fst ` set b" by auto
    then have "map (merged es) b = map (merged (e # es)) b"
      by (intro map_cong) (auto simp: merged_def)
    with True p show ?thesis by (simp add: merged_def)
  next
    case False
    with Cons p show ?thesis by (auto simp: merged_def)
  qed
qed

lemma foldl_merge_canonical:
  "foldl merge_sighting f later = canonical f later"
proof (induction later arbitrary: f)
  case Nil
  then show ?case by (simp add: canonical_def)
next
  case (Cons e later)
  show ?case
    unfolding foldl_Cons Cons.IH
    by (cases "List.find truthy (map assist later)")
       (auto simp: canonical_def merge_sighting_def)
qed

lemma filter_key_absent:
  "k \<notin> K \<Longrightarrow> filter (\<lambda>x. f x \<notin> K \<and> f x = k) es = filter (\<lambda>x. f x = k) es"
  by (rule filter_cong) auto

lemma filter_key_fresh:
  "filter (\<lambda>x. f x \<notin> K \<and> f x \<noteq> k) es = filter (\<lambda>x. f x \<noteq> k \<and> f x \<notin> K) es"
  by (rule filter_cong) auto

text \<open>
  The loop invariant: the records stored so far, each merged with the sightings of its
  key still to come, followed by the reconciliation of the events with a new key.
\<close>

lemma foldl_dedupe_step:
  "distinct (map fst b) \<Longrightarrow>
   map snd (foldl dedupe_step b raw) =
     map (merged raw) b @ reconcile_by event_key (filter (\<lambda>x. event_key x \<notin> fst ` set b) raw)"
proof (induction raw arbitrary: b)
  case Nil
  then show ?case by (simp add: merged_def)
next
  case (Cons e es)
  show ?case
  proof (cases "event_key e \<in> fst ` set b")
    case True
    have d: "distinct (map fst (byKey_merge (event_key e) e b))"
      using Cons.prems by (simp add: byKey_merge_keys)
    have s: "fst ` set (byKey_merge (event_key e) e b) = fst ` set b"
      using byKey_merge_keys [of "event_key e" e b] by (metis list.set_map)
    show ?thesis
      using True Cons.IH [OF d] byKey_merge_map [OF Cons.prems True]
      by (simp add: dedupe_step_def byKey_has_iff s)
  next
    case False
    let ?k = "event_key e" and ?K = "fst ` set b"
    have d: "distinct (map fst (b @ [(?k, e)]))"
      using Cons.prems False by (auto simp: image_iff)
    have m: "map (merged es) b = map (merged (e # es)) b"
      using False by (intro map_cong) (auto simp: merged_def)
    have step: "dedupe_step b e = b @ [(?k, e)]"
      using False by (simp add: dedupe_step_def byKey_has_iff)
    have keys: "fst ` set (b @ [(?k, e)]) = insert ?k ?K"
      by simp
    have f1: "filter (\<lambda>x. event_key x = ?k) (filter (\<lambda>x. event_key x \<notin> ?K) es)
              = filter (\<lambda>x. event_key x = ?k) es"
      using False by (simp add: filter_key_absent)
    have f2: "filter (\<lambda>x. event_key x \<noteq> ?k) (filter (\<lambda>x. event_key x \<notin> ?K) es)
              = filter (\<lambda>x. event_key x \<notin> insert ?k ?K) es"
      by (simp add: filter_key_fresh)
    have "map snd (foldl dedupe_step b (e # es))
          = map snd (foldl dedupe_step (b @ [(?k, e)]) es)"
      by (simp add: step)
    also have "\<dots> = map (merged es) (b @ [(?k, e)])
                    @ reconcile_by event_key (filter (\<lambda>x. event_key x \<notin> insert ?k ?K) es)"
      unfolding Cons.IH [OF d] keys ..
    also have "\<dots> = map (merged (e # es)) b
                    @ canonical e (filter (\<lambda>x. event_key x = ?k) es)
                    # reconcile_by event_key (filter (\<lambda>x. event_key x \<notin> insert ?k ?K) es)"
      by (simp add: m) (simp add: merged_def foldl_merge_canonical)
    also have "\<dots> = map (merged (e # es)) b
                    @ reconcile_by event_key (e # filter (\<lambda>x. event_key x \<notin> ?K) es)"
      by (simp only: reconcile_by.simps f1 f2)
    also have "\<dots> = map (merged (e # es)) b
                    @ reconcile_by event_key (filter (\<lambda>x. event_key x \<notin> ?K) (e # es))"
      using False by simp
    finally show ?thesis .
  qed
qed

lemma dedupeEvents_example:
  "dedupeEvents
     [\<lparr>minute = JNum 5, type = JStr ''goal'', player = JStr ''A'',
        assist = JUndefined, isOwnGoal = JUndefined\<rparr>,
      \<lparr>minute = JNum 5, type = JStr ''goal'', player = JStr ''A'',
        assist = JStr ''B'', isOwnGoal = JUndefined\<rparr>]
   = [\<lparr>minute = JNum 5, type = JStr ''goal'', player = JStr ''A'',
        assist = JStr ''B'', isOwnGoal = JUndefined\<rparr>]"
  by (simp add: dedupeEvents_def dedupe_step_def event_key_def decimal.simps digit_char_def
        merge_sighting_def)

lemma dedupeEvents_by_key: "dedupeEvents raw = reconcile_by event_key raw"
  using foldl_dedupe_step [of "[]" raw] by (simp add: dedupeEvents_def)

lemma canonical_keeps_first:
  "minute (canonical f later) = minute f \<and> type (canonical f later) = type f
   \<and> player (canonical f later) = player f"
  by (simp add: canonical_def)

lemma canonical_isOwnGoal:
  "truthy (isOwnGoal (canonical f later))
     \<longleftrightarrow> truthy (isOwnGoal f) \<or> list_ex (\<lambda>e. truthy (isOwnGoal e)) later"
  by (simp add: canonical_def)

lemma canonical_assist:
  "truthy (assist (canonical f later))
     \<longleftrightarrow> truthy (assist f) \<or> list_ex (\<lambda>e. truthy (assist e)) later"
  by (auto simp: canonical_def find_Some_iff find_None_iff list_ex_iff split: option.splits)

lemma canonical_own_assist:
  "truthy (assist f) \<Longrightarrow> assist (canonical f later) = assist f"
  by (simp add: canonical_def)

text \<open>Two keys that group the events of a list alike reconcile it alike.\<close>

lemma reconcile_by_cong:
  "(\<And>x y. x \<in> set raw \<Longrightarrow> y \<in> set raw \<Longrightarrow> (k x = k y) = (k' x = k' y)) \<Longrightarrow>
   reconcile_by k raw = reconcile_by k' raw"
proof (induction raw rule: length_induct)
  case (1 raw)
  show ?case
  proof (cases raw)
    case Nil
    then show ?thesis by simp
  next
    case (Cons e es)
    have same: "filter (\<lambda>x. k x = k e) es = filter (\<lambda>x. k' x = k' e) es"
      by (rule filter_cong) (use 1(2) Cons in auto)
    have other: "filter (\<lambda>x. k x \<noteq> k e) es = filter (\<lambda>x. k' x \<noteq> k' e) es"
      by (rule filter_cong) (use 1(2) Cons in auto)
    have "length (filter (\<lambda>x. k' x \<noteq> k' e) es) < length raw"
      using Cons by (simp add: less_Suc_eq_le)
    moreover have "\<And>x y. x \<in> set (filter (\<lambda>x. k' x \<noteq> k' e) es) \<Longrightarrow>
                         y \<in> set (filter (\<lambda>x. k' x \<noteq> k' e) es) \<Longrightarrow> (k x = k y) = (k' x = k' y)"
      using 1(2) Cons by simp
    ultimately have "reconcile_by k (filter (\<lambda>x. k' x \<noteq> k' e) es)
                     = reconcile_by k' (filter (\<lambda>x. k' x \<noteq> k' e) es)"
      using 1(1) by blast
    then show ?thesis by (simp add: Cons same other)
  qed
qed

lemma bar_split:
  "CHR ''|'' \<notin> set a \<Longrightarrow> CHR ''|'' \<notin> set a' \<Longrightarrow> a @ CHR ''|'' # r = a' @ CHR ''|'' # r' \<Longrightarrow>
   a = a' \<and> r = r'"
proof (induction a arbitrary: a')
  case Nil
  then show ?case by (cases a') auto
next
  case (Cons c a)
  then show ?case by (cases a') auto
qed

lemma event_key_text:
  "event_key e = join_elem (minute e) @ CHR ''|'' # join_elem (type e) @ CHR ''|'' # join_elem (player e)"
  by (simp add: event_key_def)

lemma prints_apartD:
  "prints_apart vs \<Longrightarrow> v \<in> set vs \<Longrightarrow> w \<in> set vs \<Longrightarrow> join_elem v = join_elem w \<Longrightarrow> v = w"
  by (auto simp: prints_apart_def list_all_iff)

lemma separable_keys:
  assumes s: "separable raw" and x: "x \<in> set raw" and y: "y \<in> set raw"
  shows "(event_key x = event_key y) = (sighting_key x = sighting_key y)"
proof
  assume k: "event_key x = event_key y"
  from s x y have bars: "CHR ''|'' \<notin> set (join_elem (minute x))" "CHR ''|'' \<notin> set (join_elem (minute y))"
    "CHR ''|'' \<notin> set (join_elem (type x))" "CHR ''|'' \<notin> set (join_elem (type y))"
    by (auto simp: separable_def list_all_iff bar_free_def)
  from k have "join_elem (minute x) @ CHR ''|'' # (join_elem (type x) @ CHR ''|'' # join_elem (player x))
             = join_elem (minute y) @ CHR ''|'' # (join_elem (type y) @ CHR ''|'' # join_elem (player y))"
    by (simp add: event_key_text)
  from bar_split [OF bars(1,2) this] have m: "join_elem (minute x) = join_elem (minute y)"
    and r: "join_elem (type x) @ CHR ''|'' # join_elem (player x)
            = join_elem (type y) @ CHR ''|'' # join_elem (player y)" by auto
  from bar_split [OF bars(3,4) r] have t: "join_elem (type x) = join_elem (type y)"
    and p: "join_elem (player x) = join_elem (player y)" by auto
  from s have pa: "prints_apart (map minute raw)" "prints_apart (map type raw)"
    "prints_apart (map player raw)" by (simp_all add: separable_def)
  have "minute x = minute y" by (rule prints_apartD [OF pa(1)]) (use x y m in auto)
  moreover have "type x = type y" by (rule prints_apartD [OF pa(2)]) (use x y t in auto)
  moreover have "player x = player y" by (rule prints_apartD [OF pa(3)]) (use x y p in auto)
  ultimately show "sighting_key x = sighting_key y" by (simp add: sighting_key_def)
next
  assume "sighting_key x = sighting_key y"
  then show "event_key x = event_key y" by (simp add: sighting_key_def event_key_def)
qed

text \<open>
  C1 (as amended). For the two sightings of the goal of player A in minute 5, the second
  of which names the assist B, \<open>dedupeEvents\<close> returns exactly one event, with assist B.
  The key of the code is the text \<open>minute|type|player\<close>: events of one tuple always have
  one key, and on every list whose tuples that text tells apart \<open>dedupeEvents\<close> returns
  what the specification of the reconciler describes for the key \<open>(minute, type, player)\<close>:
  one record per tuple in first-seen order, which is the first occurrence of the tuple
  with two fields merged. Its assist is its own if it has one and otherwise the first one
  a later sighting offers, so that it has an assist exactly if some sighting has; it is
  an own goal exactly if some sighting is, so that the flag is never un-set.
\<close>

theorem dedupeEvents_reconciles:
  "dedupeEvents
     [\<lparr>minute = JNum 5, type = JStr ''goal'', player = JStr ''A'',
        assist = JUndefined, isOwnGoal = JUndefined\<rparr>,
      \<lparr>minute = JNum 5, type = JStr ''goal'', player = JStr ''A'',
        assist = JStr ''B'', isOwnGoal = JUndefined\<rparr>]
   = [\<lparr>minute = JNum 5, type = JStr ''goal'', player = JStr ''A'',
        assist = JStr ''B'', isOwnGoal = JUndefined\<rparr>]
   \<and> (separable raw \<longrightarrow> dedupeEvents raw = spec_reconcile raw)
   \<and> (sighting_key x = sighting_key y \<longrightarrow> event_key x = event_key y)
   \<and> dedupeEvents raw = reconcile_by event_key raw
   \<and> minute (canonical first later) = minute first
   \<and> type (canonical first later) = type first
   \<and> player (canonical first later) = player first
   \<and> (truthy (assist (canonical first later))
        \<longleftrightarrow> truthy (assist first) \<or> list_ex (\<lambda>e. truthy (assist e)) later)
   \<and> (truthy (isOwnGoal (canonical first later))
        \<longleftrightarrow> truthy (isOwnGoal first) \<or> list_ex (\<lambda>e. truthy (isOwnGoal e)) later)"
proof -
  have sep: "separable raw \<longrightarrow> dedupeEvents raw = spec_reconcile raw"
  proof
    assume s: "separable raw"
    have "reconcile_by event_key raw = reconcile_by sighting_key raw"
      by (rule reconcile_by_cong) (rule separable_keys [OF s])
    then show "dedupeEvents raw = spec_reconcile raw"
      by (simp add: dedupeEvents_by_key spec_reconcile_def)
  qed
  have key: "sighting_key x = sighting_key y \<longrightarrow> event_key x = event_key y"
    by (simp add: sighting_key_def event_key_def)
  from sep key dedupeEvents_example dedupeEvents_by_key [of raw]
    canonical_keeps_first [of first later] canonical_assist [of first later]
    canonical_isOwnGoal [of first later]
  show ?thesis by blast
qed

theorem dedupeEvents_reconciles_witness:
  "separable
     [\<lparr>minute = JNum 5, type = JStr ''goal'', player = JStr ''A'',
        assist = JUndefined, isOwnGoal = JUndefined\<rparr>,
      \<lparr>minute = JNum 7, type = JStr ''goal'', player = JStr ''C'',
        assist = JUndefined, isOwnGoal = JBool True\<rparr>,
      \<lparr>minute = JNum 5, type = JStr ''goal'', player = JStr ''A'',
        assist = JStr ''B'', isOwnGoal = JUndefined\<rparr>]
   \<and> dedupeEvents
     [\<lparr>minute = JNum 5, type = JStr ''goal'', player = JStr ''A'',
        assist = JUndefined, isOwnGoal = JUndefined\<rparr>,
      \<lparr>minute = JNum 7, type = JStr ''goal'', player = JStr ''C'',
        assist = JUndefined, isOwnGoal = JBool True\<rparr>,
      \<lparr>minute = JNum 5, type = JStr ''goal'', player = JStr ''A'',
        assist = JStr ''B'', isOwnGoal = JUndefined\<rparr>]
   = [\<lparr>minute = JNum 5, type = JStr ''goal'', player = JStr ''A'',
        assist = JStr ''B'', isOwnGoal = JUndefined\<rparr>,
      \<lparr>minute = JNum 7, type = JStr ''goal'', player = JStr ''C'',
        assist = JUndefined, isOwnGoal = JBool True\<rparr>]
   \<and> sighting_key \<lparr>minute = JNum 5, type = JStr ''goal'', player = JStr ''A'',
        assist = JUndefined, isOwnGoal = JUndefined\<rparr>
     = sighting_key \<lparr>minute = JNum 5, type = JStr ''goal'', player = JStr ''A'',
        assist = JStr ''B'', isOwnGoal = JUndefined\<rparr>
   \<and> event_key \<lparr>minute = JNum 5, type = JStr ''goal'', player = JStr ''A'',
        assist = JUndefined, isOwnGoal = JUndefined\<rparr>
     = event_key \<lparr>minute = JNum 5, type = JStr ''goal'', player = JStr ''A'',
        assist = JStr ''B'', isOwnGoal = JUndefined\<rparr>"
proof -
  let ?raw = "[\<lparr>minute = JNum 5, type = JStr ''goal'', player = JStr ''A'',
        assist = JUndefined, isOwnGoal = JUndefined\<rparr>,
      \<lparr>minute = JNum 7, type = JStr ''goal'', player = JStr ''C'',
        assist = JUndefined, isOwnGoal = JBool True\<rparr>,
      \<lparr>minute = JNum 5, type = JStr ''goal'', player = JStr ''A'',
        assist = JStr ''B'', isOwnGoal = JUndefined\<rparr>]"
  have s: "separable ?raw"
    by (simp add: separable_def prints_apart_def bar_free_def decimal.simps digit_char_def)
  have v: "spec_reconcile ?raw
     = [\<lparr>minute = JNum 5, type = JStr ''goal'', player = JStr ''A'',
        assist = JStr ''B'', isOwnGoal = JUndefined\<rparr>,
      \<lparr>minute = JNum 7, type = JStr ''goal'', player = JStr ''C'',
        assist = JUndefined, isOwnGoal = JBool True\<rparr>]"
    by (simp add: spec_reconcile_def sighting_key_def canonical_def)
  let ?x = "\<lparr>minute = JNum 5, type = JStr ''goal'', player = JStr ''A'',
        assist = JUndefined, isOwnGoal = JUndefined\<rparr>"
  let ?y = "\<lparr>minute = JNum 5, type = JStr ''goal'', player = JStr ''A'',
        assist = JStr ''B'', isOwnGoal = JUndefined\<rparr>"
  have k: "sighting_key ?x = sighting_key ?y" by (simp add: sighting_key_def)
  note t = dedupeEvents_reconciles [where raw = ?raw and x = ?x and y = ?y]
  from t s have d: "dedupeEvents ?raw = spec_reconcile ?raw" by blast
  from t k have e: "event_key ?x = event_key ?y" by blast
  from s d v k e show ?thesis by simp
qed

text \<open>
  A \<open>null\<close> and an empty minute are two tuples and one key, \<open>|goal|A\<close>: the code merges the
  two events into one record, which takes the assist and the own-goal mark of the second,
  where the reconciler of the specification keeps both events as they are.
\<close>

theorem dedupeEvents_joined_key_counterexample:
  "dedupeEvents
     [\<lparr>minute = JNull, type = JStr ''goal'', player = JStr ''A'',
        assist = JNull, isOwnGoal = JBool False\<rparr>,
      \<lparr>minute = JStr [], type = JStr ''goal'', player = JStr ''A'',
        assist = JStr ''B'', isOwnGoal = JBool True\<rparr>]
   = [\<lparr>minute = JNull, type = JStr ''goal'', player = JStr ''A'',
        assist = JStr ''B'', isOwnGoal = JBool True\<rparr>]
   \<and> spec_reconcile
     [\<lparr>minute = JNull, type = JStr ''goal'', player = JStr ''A'',
        assist = JNull, isOwnGoal = JBool False\<rparr>,
      \<lparr>minute = JStr [], type = JStr ''goal'', player = JStr ''A'',
        assist = JStr ''B'', isOwnGoal = JBool True\<rparr>]
   = [\<lparr>minute = JNull, type = JStr ''goal'', player = JStr ''A'',
        assist = JNull, isOwnGoal = JBool False\<rparr>,
      \<lparr>minute = JStr [], type = JStr ''goal'', player = JStr ''A'',
        assist = JStr ''B'', isOwnGoal = JBool True\<rparr>]
   \<and> sighting_key \<lparr>minute = JNull, type = JStr ''goal'', player = JStr ''A'',
        assist = JNull, isOwnGoal = JBool False\<rparr>
     \<noteq> sighting_key \<lparr>minute = JStr [], type = JStr ''goal'', player = JStr ''A'',
        assist = JStr ''B'', isOwnGoal = JBool True\<rparr>"
  by (simp add: dedupeEvents_def dedupe_step_def event_key_def merge_sighting_def
        spec_reconcile_def sighting_key_def canonical_def)

lemma worker_dedupeEvents_subset: "set (worker_dedupeEvents es) \<subseteq> set es"
proof -
  have "set (worker_dedupeEvents es) \<subseteq> snd ` set (enumerate 0 es)"
    by (auto simp: worker_dedupeEvents_def)
  also have "\<dots> = set es"
    by (metis list.set_map map_snd_enumerate)
  finally show ?thesis .
qed

text \<open>
  C2. The worker does not apply that reconciler. Its local \<open>dedupeEvents\<close> keeps the first
  sighting of a key as it is and drops the others: on two sightings of one goal, the
  first without the assist, it emits the event without the assist, where the reconciler
  of utils.js returns it with the assist. Every event it emits is one of the events it
  was given, unchanged.
\<close>

theorem worker_dedupeEvents_drops_assist:
  "cleanedEvents
     [\<lparr>minute = JStr ''5'', type = JStr ''goal'', player = JStr ''A'',
        assist = JNull, isOwnGoal = JUndefined\<rparr>,
      \<lparr>minute = JStr ''5'', type = JStr ''goal'', player = JStr ''A'',
        assist = JStr ''B'', isOwnGoal = JUndefined\<rparr>]
   = [\<lparr>minute = JStr ''5'', type = JStr ''goal'', player = JStr ''A'',
        assist = JNull, isOwnGoal = JUndefined\<rparr>]
   \<and> dedupeEvents (map strip_event
     [\<lparr>minute = JStr ''5'', type = JStr ''goal'', player = JStr ''A'',
        assist = JNull, isOwnGoal = JUndefined\<rparr>,
      \<lparr>minute = JStr ''5'', type = JStr ''goal'', player = JStr ''A'',
        assist = JStr ''B'', isOwnGoal = JUndefined\<rparr>])
   = [\<lparr>minute = JStr ''5'', type = JStr ''goal'', player = JStr ''A'',
        assist = JStr ''B'', isOwnGoal = JUndefined\<rparr>]
   \<and> set (cleanedEvents events) \<subseteq> strip_event ` set events"
proof -
  have "set (cleanedEvents events) \<subseteq> strip_event ` set events"
    using worker_dedupeEvents_subset [of "map strip_event events"]
    by (simp add: cleanedEvents_def)
  then show ?thesis
    by (simp add: cleanedEvents_def worker_dedupeEvents_def same_sighting_def strip_event_def
          enumerate_eq_zip dedupeEvents_def dedupe_step_def event_key_def merge_sighting_def)
qed

section \<open>Properties of the partitioner\<close>

lemma concat_chunks: "concat (chunks n xs) = xs"
proof (induction n xs rule: chunks.induct)
  case (1 n xs)
  then show ?case by (subst chunks.simps) auto
qed



lemma chunks_small: "length xs < n \<or> n = 0 \<Longrightarrow> chunks n xs = (if xs = [] then [] else [xs])"
  by (subst chunks.simps) auto

lemma chunks_full: "length xs = n \<Longrightarrow> n > 0 \<Longrightarrow> chunks n (xs @ ys) = xs # chunks n ys"
  by (subst chunks.simps) (auto simp: chunks.simps [of _ "[]"])

lemma flush_ok:
  "fs_ok (''batches/batch-'' @ padStart 3 (CHR ''0'') (decimal (fileIdx st + 1)) @ ''.json'') \<Longrightarrow>
   flush fs_ok clock st =
     Inr \<lparr> buf = [], fileIdx = fileIdx st + 1,
           files = files st @ [(''batches/batch-'' @ padStart 3 (CHR ''0'') (decimal (fileIdx st + 1)) @ ''.json'', buf st)],
           coll = updateMany_queued (map row_matchId (buf st)) (clock (fileIdx st + 1)) (coll st) \<rparr>"
  by (simp add: flush_def Let_def)

lemma export_loop_chunks:
  assumes ok: "\<And>name. fs_ok name"
  shows "int (length (buf st)) < LIMIT \<or> LIMIT \<le> 0 \<Longrightarrow>
     \<exists>st'. export_loop fs_ok clock LIMIT cur st = Inr st'
         \<and> shards st' @ rest_shard st' = shards st @ chunks (nat LIMIT) (buf st @ cur)
         \<and> (int (length (buf st')) < LIMIT \<or> LIMIT \<le> 0)"
proof (induction cur arbitrary: st)
  case Nil
  then show ?case by (auto simp: chunks_small rest_shard_def)
next
  case (Cons m cur)
  let ?st1 = "st\<lparr> buf := buf st @ [m] \<rparr>"
  show ?case
  proof (cases "int (length (buf ?st1)) = LIMIT")
    case True
    let ?st2 = "\<lparr> buf = [], fileIdx = fileIdx ?st1 + 1,
           files = files ?st1 @ [(''batches/batch-'' @ padStart 3 (CHR ''0'') (decimal (fileIdx ?st1 + 1)) @ ''.json'', buf ?st1)],
           coll = updateMany_queued (map row_matchId (buf ?st1)) (clock (fileIdx ?st1 + 1)) (coll ?st1) \<rparr>"
    have fl: "flush fs_ok clock ?st1 = Inr ?st2" by (rule flush_ok) (rule ok)
    from True have pos: "0 < LIMIT" by auto
    then have p2: "int (length (buf ?st2)) < LIMIT \<or> LIMIT \<le> 0" by simp
    from Cons.IH [OF p2] obtain st' where
      r: "export_loop fs_ok clock LIMIT cur ?st2 = Inr st'"
      and c: "shards st' @ rest_shard st' = shards ?st2 @ chunks (nat LIMIT) (buf ?st2 @ cur)"
      and p: "int (length (buf st')) < LIMIT \<or> LIMIT \<le> 0" by blast
    from True pos have len: "length (buf st @ [m]) = nat LIMIT" "nat LIMIT > 0" by auto
    have "chunks (nat LIMIT) (buf st @ m # cur) = (buf st @ [m]) # chunks (nat LIMIT) cur"
      using chunks_full [OF len, of cur] by simp
    with c have "shards st' @ rest_shard st' = shards st @ chunks (nat LIMIT) (buf st @ m # cur)"
      by (simp add: shards_def)
    with r p fl True show ?thesis by (simp del: flush_def)
  next
    case False
    with Cons.prems have p1: "int (length (buf ?st1)) < LIMIT \<or> LIMIT \<le> 0" by auto
    from Cons.IH [OF p1] False show ?thesis by (simp add: shards_def)
  qed
qed

lemma export_batches_chunks:
  assumes ok: "\<And>name. fs_ok name"
  shows "\<exists>st. export_batches fs_ok clock LIMIT START EXC EXL docs = Inr st
           \<and> shards st = chunks (nat LIMIT) (export_cursor START EXC EXL docs)
           \<and> buf st = []"
proof -
  let ?st0 = "\<lparr> buf = [], fileIdx = 0, files = [], coll = docs \<rparr>"
  let ?cur = "export_cursor START EXC EXL docs"
  have "int (length (buf ?st0)) < LIMIT \<or> LIMIT \<le> 0" by auto
  from export_loop_chunks [of fs_ok, OF ok this, of clock ?cur] obtain st' where
    r: "export_loop fs_ok clock LIMIT ?cur ?st0 = Inr st'"
    and c: "shards st' @ rest_shard st' = chunks (nat LIMIT) ?cur"
    by (auto simp: shards_def)
  show ?thesis
  proof (cases "buf st' = []")
    case True
    with r c show ?thesis by (simp add: export_batches_def rest_shard_def)
  next
    case False
    have "flush fs_ok clock st' = Inr \<lparr> buf = [], fileIdx = fileIdx st' + 1,
           files = files st' @ [(''batches/batch-'' @ padStart 3 (CHR ''0'') (decimal (fileIdx st' + 1)) @ ''.json'', buf st')],
           coll = updateMany_queued (map row_matchId (buf st')) (clock (fileIdx st' + 1)) (coll st') \<rparr>"
      by (rule flush_ok) (rule ok)
    with False r c show ?thesis by (simp add: export_batches_def rest_shard_def shards_def)
  qed
qed


lemma marked_iff:
  "marked ids m m' \<longleftrightarrow>
     (if matchId m \<in> set ids
      then \<exists>t. m' = m\<lparr> processingStatus := ''queued'', updatedAt := t \<rparr> else m' = m)"
proof (cases "matchId m \<in> set ids")
  case True
  have "(m' = m\<lparr> processingStatus := ''queued'', updatedAt := updatedAt m' \<rparr>)
        \<longleftrightarrow> (\<exists>t. m' = m\<lparr> processingStatus := ''queued'', updatedAt := t \<rparr>)"
  proof
    assume "m' = m\<lparr> processingStatus := ''queued'', updatedAt := updatedAt m' \<rparr>"
    then show "\<exists>t. m' = m\<lparr> processingStatus := ''queued'', updatedAt := t \<rparr>" by blast
  next
    assume "\<exists>t. m' = m\<lparr> processingStatus := ''queued'', updatedAt := t \<rparr>"
    then obtain t where "m' = m\<lparr> processingStatus := ''queued'', updatedAt := t \<rparr>" by blast
    then show "m' = m\<lparr> processingStatus := ''queued'', updatedAt := updatedAt m' \<rparr>" by simp
  qed
  with True show ?thesis by (simp add: marked_def)
next
  case False
  then show ?thesis by (simp add: marked_def)
qed

lemma marked_update:
  "marked ids m m' \<Longrightarrow>
   marked (ids @ ids') m
     (if matchId m' \<in> set ids' then m'\<lparr> processingStatus := ''queued'', updatedAt := Some now \<rparr> else m')"
proof -
  assume a: "marked ids m m'"
  show ?thesis
  proof (cases "matchId m \<in> set ids")
    case True
    with a obtain t where m': "m' = m\<lparr> processingStatus := ''queued'', updatedAt := t \<rparr>"
      by (auto simp: marked_iff)
    show ?thesis
    proof (cases "matchId m \<in> set ids'")
      case True
      have "\<exists>u. m\<lparr> processingStatus := ''queued'', updatedAt := Some now \<rparr>
                = m\<lparr> processingStatus := ''queued'', updatedAt := u \<rparr>" by blast
      with True m' show ?thesis by (simp add: marked_iff)
    next
      case False
      with True m' show ?thesis by (auto simp: marked_iff)
    qed
  next
    case False
    with a have m': "m' = m" by (simp add: marked_iff)
    show ?thesis
    proof (cases "matchId m \<in> set ids'")
      case True
      have "\<exists>u. m\<lparr> processingStatus := ''queued'', updatedAt := Some now \<rparr>
                = m\<lparr> processingStatus := ''queued'', updatedAt := u \<rparr>" by blast
      with True m' show ?thesis by (simp add: marked_iff)
    next
      case False
      with \<open>matchId m \<notin> set ids\<close> m' show ?thesis by (simp add: marked_iff)
    qed
  qed
qed

lemma marked_updateMany:
  "list_all2 (marked ids) docs c \<Longrightarrow>
   list_all2 (marked (ids @ ids')) docs (updateMany_queued ids' now c)"
  unfolding updateMany_queued_def list_all2_map2
  by (erule list_all2_mono) (rule marked_update)

lemma flush_queued_only_persisted:
  "queued_only_persisted docs st \<Longrightarrow>
   queued_only_persisted docs (final_state (flush fs_ok clock st))"
  using marked_updateMany [of "map row_matchId (concat (shards st))" docs "coll st"
          "map row_matchId (buf st)"]
  by (simp add: flush_def Let_def final_state_def queued_only_persisted_def shards_def)

lemma export_loop_queued_only_persisted:
  "queued_only_persisted docs st \<Longrightarrow>
   queued_only_persisted docs (final_state (export_loop fs_ok clock LIMIT cur st))"
proof (induction cur arbitrary: st)
  case Nil
  then show ?case by (simp add: final_state_def)
next
  case (Cons m cur)
  let ?st1 = "st\<lparr> buf := buf st @ [m] \<rparr>"
  have q1: "queued_only_persisted docs ?st1"
    using Cons.prems by (simp add: queued_only_persisted_def shards_def)
  show ?case
  proof (cases "int (length (buf ?st1)) = LIMIT")
    case True
    show ?thesis
    proof (cases "flush fs_ok clock ?st1")
      case (Inl a)
      with flush_queued_only_persisted [OF q1, of fs_ok clock] True show ?thesis
        by (simp add: final_state_def)
    next
      case (Inr st2)
      with flush_queued_only_persisted [OF q1, of fs_ok clock]
      have "queued_only_persisted docs st2" by (simp add: final_state_def)
      from Cons.IH [OF this] Inr True show ?thesis by simp
    qed
  next
    case False
    with Cons.IH [OF q1] show ?thesis by simp
  qed
qed

lemma export_batches_queued_only_persisted:
  "queued_only_persisted docs
     (final_state (export_batches fs_ok clock LIMIT START EXC EXL docs))"
proof -
  let ?st0 = "\<lparr> buf = [], fileIdx = 0, files = [], coll = docs \<rparr>"
  let ?r = "export_loop fs_ok clock LIMIT (export_cursor START EXC EXL docs) ?st0"
  have "queued_only_persisted docs ?st0"
    by (simp add: queued_only_persisted_def shards_def marked_def list_all2_same)
  from export_loop_queued_only_persisted [OF this]
  have q: "queued_only_persisted docs (final_state ?r)" .
  show ?thesis
  proof (cases ?r)
    case (Inl a)
    with q show ?thesis by (simp add: export_batches_def final_state_def)
  next
    case (Inr st)
    with q have "queued_only_persisted docs st" by (simp add: final_state_def)
    from flush_queued_only_persisted [OF this, of fs_ok clock] this Inr
    show ?thesis by (simp add: export_batches_def final_state_def)
  qed
qed







section \<open>Properties of the importer\<close>

lemma find_match_update_first:
  "(\<And>m. matchId (f m) = matchId m) \<Longrightarrow>
   find_match k (update_first (\<lambda>m. matchId m = k') f ms)
     = (if k = k' then map_option f (find_match k ms) else find_match k ms)"
  by (induction ms) (auto simp: find_match_def)

lemma matchId_set_complete [simp]: "matchId (set_complete d iid now m) = matchId m"
  by (simp add: set_complete_def)

lemma import_entry_skips:
  "\<not> takes_effect r \<Longrightarrow>
   matches (import_entry clock st r) = matches st
   \<and> match_details (import_entry clock st r) = match_details st"
  by (auto simp: import_entry_def takes_effect_def Let_def split: sum.splits)

lemma import_entry_effect:
  "takes_effect r \<Longrightarrow>
   \<exists>iid. entry_internalId r = Inr iid
     \<and> matches (import_entry clock st r)
        = update_first (\<lambda>m. matchId m = r_matchId r)
            (set_complete (entry_date r) iid (clock (totalProcessed st + 1))) (matches st)
     \<and> match_details (import_entry clock st r)
        = upsert_details (r_matchId r) (r_details r) (clock (totalProcessed st + 1))
            (match_details st)"
  by (auto simp: import_entry_def takes_effect_def Let_def split: sum.splits)

lemma import_file_snoc:
  "import_file clock st (rs @ [r]) = import_entry clock (import_file clock st rs) r"
  by (simp add: import_file_def)

lemma find_match_import_entry:
  "find_match k (matches (import_entry clock st r))
     = (if r_matchId r = k \<and> takes_effect r
        then map_option (\<lambda>m. m\<lparr> processingStatus := ''complete'', date := entry_date r,
                                 internalId := (case entry_internalId r of Inr iid \<Rightarrow> iid | Inl err \<Rightarrow> None),
                                 updatedAt := Some (clock (totalProcessed st + 1)) \<rparr>)
               (find_match k (matches st))
        else find_match k (matches st))"
proof (cases "takes_effect r")
  case True
  from import_entry_effect [OF True, of clock st] obtain iid where
    i: "entry_internalId r = Inr iid"
    and m: "matches (import_entry clock st r)
        = update_first (\<lambda>m. matchId m = r_matchId r)
            (set_complete (entry_date r) iid (clock (totalProcessed st + 1))) (matches st)"
    by blast
  have "set_complete (entry_date r) iid (clock (totalProcessed st + 1))
        = (\<lambda>m. m\<lparr> processingStatus := ''complete'', date := entry_date r,
                                 internalId := iid,
                                 updatedAt := Some (clock (totalProcessed st + 1)) \<rparr>)"
    by (rule ext) (simp add: set_complete_def)
  with True i m show ?thesis
    by (auto simp: find_match_update_first)
next
  case False
  then show ?thesis by (simp add: import_entry_skips)
qed

text \<open>The importer never writes \<open>processingAttempts\<close>.\<close>

lemma import_file_attempts:
  "find_match k (matches st) = Some m \<Longrightarrow>
   \<exists>m'. find_match k (matches (import_file clock st rs)) = Some m'
       \<and> processingAttempts m' = processingAttempts m"
proof (induction rs rule: rev_induct)
  case Nil
  then show ?case by (simp add: import_file_def)
next
  case (snoc r rs)
  then obtain m' where "find_match k (matches (import_file clock st rs)) = Some m'"
    and "processingAttempts m' = processingAttempts m" by blast
  then show ?case
    by (auto simp: import_file_snoc find_match_import_entry)
qed

lemma import_file_untouched:
  "list_all (\<lambda>r. r_matchId r = k \<longrightarrow> \<not> takes_effect r) rs \<Longrightarrow>
   find_match k (matches (import_file clock st rs)) = find_match k (matches st)"
proof (induction rs rule: rev_induct)
  case Nil
  then show ?case by (simp add: import_file_def)
next
  case (snoc r rs)
  then show ?case
    by (auto simp: import_file_snoc find_match_import_entry)
qed

lemma import_file_complete:
  "find_match k (matches st) = Some m \<Longrightarrow>
   list_ex (\<lambda>r. r_matchId r = k \<and> takes_effect r) rs \<Longrightarrow>
   \<exists>m'. find_match k (matches (import_file clock st rs)) = Some m'
       \<and> processingStatus m' = ''complete''"
proof (induction rs rule: rev_induct)
  case Nil
  then show ?case by simp
next
  case (snoc r rs)
  from import_file_attempts [OF snoc.prems(1), of clock rs] obtain m0 where
    m0: "find_match k (matches (import_file clock st rs)) = Some m0" by blast
  show ?case
  proof (cases "r_matchId r = k \<and> takes_effect r")
    case True
    with m0 show ?thesis by (simp add: import_file_snoc find_match_import_entry)
  next
    case False
    with snoc.prems have "list_ex (\<lambda>r. r_matchId r = k \<and> takes_effect r) rs" by auto
    from snoc.IH [OF snoc.prems(1) this] False show ?thesis
      by (auto simp: import_file_snoc find_match_import_entry)
  qed
qed

lemma chunks_five: "length xs = 5 \<Longrightarrow> map length (chunks 2 xs) = [2, 2, 1]"
proof -
  assume "length xs = 5"
  then obtain a b c d e where "xs = [a, b, c, d, e]"
    by (auto simp: eval_nat_numeral length_Suc_conv)
  then show ?thesis by (simp add: chunks.simps)
qed

lemma export_query_pending: "processingStatus m = ''pending'' \<Longrightarrow> export_query 0 [] [] m"
  by (simp add: export_query_def)

lemma export_cursor_all_pending:
  "list_all (\<lambda>m. processingStatus m = ''pending'') docs \<Longrightarrow>
   export_cursor 0 [] [] docs = map project (sort_key scrapeId_key docs)"
proof -
  assume "list_all (\<lambda>m. processingStatus m = ''pending'') docs"
  then have "filter (export_query 0 [] []) docs = docs"
    by (auto simp: list_all_iff export_query_pending)
  then show ?thesis by (simp add: export_cursor_def)
qed

lemma find_match_marked:
  "list_all2 (marked ids) docs c \<Longrightarrow> find_match k docs = Some m \<Longrightarrow>
   \<exists>m'. find_match k c = Some m' \<and> marked ids m m'"
proof (induction rule: list_all2_induct)
  case Nil
  then show ?case by (simp add: find_match_def)
next
  case (Cons x xs y ys)
  from Cons.hyps(1) have "matchId y = matchId x"
    by (auto simp: marked_iff split: if_splits)
  with Cons show ?case by (auto simp: find_match_def split: if_splits)
qed

lemma find_match_in_set: "find_match k docs = Some m \<Longrightarrow> m \<in> set docs \<and> matchId m = k"
  by (auto simp: find_match_def find_Some_iff)

lemma export_all_pending:
  assumes p: "list_all (\<lambda>m. processingStatus m = ''pending'') docs"
    and f: "find_match k docs = Some m"
  shows "\<exists>st. export_batches (\<lambda>name. True) clock LIMIT 0 [] [] docs = Inr st
           \<and> shards st = chunks (nat LIMIT) (map project (sort_key scrapeId_key docs))
           \<and> (\<exists>m'. find_match k (coll st) = Some m'
                 \<and> m' = m\<lparr> processingStatus := ''queued'', updatedAt := updatedAt m' \<rparr>)"
proof -
  from export_batches_chunks [of "\<lambda>name. True" clock LIMIT 0 "[]" "[]" docs]
  obtain st where r: "export_batches (\<lambda>name. True) clock LIMIT 0 [] [] docs = Inr st"
    and s: "shards st = chunks (nat LIMIT) (export_cursor 0 [] [] docs)" by auto
  have cur: "export_cursor 0 [] [] docs = map project (sort_key scrapeId_key docs)"
    using p by (rule export_cursor_all_pending)
  from export_batches_queued_only_persisted [of docs "\<lambda>name. True" clock LIMIT 0 "[]" "[]"] r
  have q: "list_all2 (marked (map row_matchId (concat (shards st)))) docs (coll st)"
    by (simp add: final_state_def queued_only_persisted_def)
  have ids: "set (map row_matchId (concat (shards st))) = matchId ` set docs"
    by (simp add: s concat_chunks cur project_def image_image)
  from find_match_marked [OF q f] obtain m' where
    m': "find_match k (coll st) = Some m'" "marked (map row_matchId (concat (shards st))) m m'"
    by blast
  from f have "matchId m \<in> matchId ` set docs" by (auto dest: find_match_in_set)
  with m'(2) ids have "m' = m\<lparr> processingStatus := ''queued'', updatedAt := updatedAt m' \<rparr>"
    by (simp add: marked_def)
  with r s cur m'(1) show ?thesis by auto
qed

text \<open>
  C3 (as amended). Exporting five pending matches with \<open>limit = 2\<close> writes three shard
  files of sizes 2, 2 and 1. After the import of a result file with a success entry for
  two of the matches and an error entry for a third, the two matches are \<open>complete\<close>, and
  the errored match is still \<open>queued\<close> with the \<open>processingAttempts\<close> it had before the
  export: neither the partitioner nor the importer increments the counter.
\<close>

theorem export_then_import:
  assumes five: "length docs = 5"
    and pending: "list_all (\<lambda>m. processingStatus m = ''pending'') docs"
    and m1: "find_match (r_matchId s1) docs = Some m1"
    and m2: "find_match (r_matchId s2) docs = Some m2"
    and m3: "find_match (r_matchId e) docs = Some m3"
    and s1: "\<not> truthy (r_error s1)" "r_details s1 = Val d1"
    and s2: "\<not> truthy (r_error s2)" "r_details s2 = Val d2"
    and e: "truthy (r_error e)"
    and other: "r_matchId e \<noteq> r_matchId s1" "r_matchId e \<noteq> r_matchId s2"
  shows "\<exists>st. export_batches (\<lambda>name. True) clock 2 0 [] [] docs = Inr st
           \<and> map length (shards st) = [2, 2, 1]
           \<and> (\<exists>a b c.
                 find_match (r_matchId s1)
                   (matches (import_file clock' (import_start (coll st) ds) [s1, s2, e])) = Some a
               \<and> processingStatus a = ''complete''
               \<and> find_match (r_matchId s2)
                   (matches (import_file clock' (import_start (coll st) ds) [s1, s2, e])) = Some b
               \<and> processingStatus b = ''complete''
               \<and> find_match (r_matchId e)
                   (matches (import_file clock' (import_start (coll st) ds) [s1, s2, e])) = Some c
               \<and> processingStatus c = ''queued''
               \<and> processingAttempts c = processingAttempts m3)"
proof -
  from export_all_pending [OF pending m1, of clock 2] obtain st q1 where
    r: "export_batches (\<lambda>name. True) clock 2 0 [] [] docs = Inr st"
    and sh: "shards st = chunks (nat 2) (map project (sort_key scrapeId_key docs))"
    and q1: "find_match (r_matchId s1) (coll st) = Some q1" by blast
  from export_all_pending [OF pending m2, of clock 2] r obtain q2 where
    q2: "find_match (r_matchId s2) (coll st) = Some q2" by auto
  from export_all_pending [OF pending m3, of clock 2] r obtain q3 where
    q3: "find_match (r_matchId e) (coll st) = Some q3"
    and q3': "q3 = m3\<lparr> processingStatus := ''queued'', updatedAt := updatedAt q3 \<rparr>" by auto
  have len: "map length (shards st) = [2, 2, 1]"
    unfolding sh using five by (simp add: chunks_five)
  let ?st0 = "import_start (coll st) ds"
  let ?rs = "[s1, s2, e]"
  have t1: "takes_effect s1" and t2: "takes_effect s2" and t3: "\<not> takes_effect e"
    using s1 s2 e
    by (auto simp: takes_effect_def entry_internalId_def details_internalId_def
          split: field.splits)
  have ms: "matches ?st0 = coll st" by (simp add: import_start_def)
  from import_file_complete [of "r_matchId s1" ?st0 q1 ?rs clock'] q1 t1 ms
  obtain a where a: "find_match (r_matchId s1) (matches (import_file clock' ?st0 ?rs)) = Some a"
    "processingStatus a = ''complete''" by auto
  from import_file_complete [of "r_matchId s2" ?st0 q2 ?rs clock'] q2 t2 ms
  obtain b where b: "find_match (r_matchId s2) (matches (import_file clock' ?st0 ?rs)) = Some b"
    "processingStatus b = ''complete''" by auto
  have "list_all (\<lambda>r. r_matchId r = r_matchId e \<longrightarrow> \<not> takes_effect r) ?rs"
    using other t3 by simp
  from import_file_untouched [OF this, of clock' ?st0] q3 ms
  have c: "find_match (r_matchId e) (matches (import_file clock' ?st0 ?rs)) = Some q3" by simp
  have "processingStatus q3 = ''queued''" "processingAttempts q3 = processingAttempts m3"
    by (subst q3', simp)+
  with r len a b c show ?thesis by simp
qed

theorem export_then_import_witness:
  "length five_pending = 5
   \<and> list_all (\<lambda>m. processingStatus m = ''pending'') five_pending
   \<and> find_match ''m3'' five_pending = Some (example_match ''m3'' (Val 3) 30 ''pending'')
   \<and> (\<exists>st. export_batches (\<lambda>name. True) (\<lambda>i. i) 2 0 [] [] five_pending = Inr st
        \<and> map length (shards st) = [2, 2, 1]
        \<and> (\<exists>a b c.
              find_match ''m1'' (matches (import_file (\<lambda>i. 100 + i) (import_start (coll st) [])
                 [success_entry ''m1'' 1 Null None, success_entry ''m2'' 2 Null None,
                  error_entry ''m3'' 3 ''timeout''])) = Some a
            \<and> processingStatus a = ''complete''
            \<and> find_match ''m2'' (matches (import_file (\<lambda>i. 100 + i) (import_start (coll st) [])
                 [success_entry ''m1'' 1 Null None, success_entry ''m2'' 2 Null None,
                  error_entry ''m3'' 3 ''timeout''])) = Some b
            \<and> processingStatus b = ''complete''
            \<and> find_match ''m3'' (matches (import_file (\<lambda>i. 100 + i) (import_start (coll st) [])
                 [success_entry ''m1'' 1 Null None, success_entry ''m2'' 2 Null None,
                  error_entry ''m3'' 3 ''timeout''])) = Some c
            \<and> processingStatus c = ''queued''
            \<and> processingAttempts c = Some 0))"
proof -
  have h1: "length five_pending = 5"
    and h2: "list_all (\<lambda>m. processingStatus m = ''pending'') five_pending"
    and h3: "find_match (r_matchId (success_entry ''m1'' 1 Null None)) five_pending
               = Some (example_match ''m1'' (Val 1) 10 ''pending'')"
    and h4: "find_match (r_matchId (success_entry ''m2'' 2 Null None)) five_pending
               = Some (example_match ''m2'' (Val 2) 20 ''pending'')"
    and h5: "find_match (r_matchId (error_entry ''m3'' 3 ''timeout'')) five_pending
               = Some (example_match ''m3'' (Val 3) 30 ''pending'')"
    by (simp_all add: five_pending_def example_match_def find_match_def success_entry_def
          error_entry_def)
  have h6: "\<not> truthy (r_error (success_entry ''m1'' 1 Null None))"
    "r_details (success_entry ''m1'' 1 Null None) = Val (example_details ''m1'' None)"
    "\<not> truthy (r_error (success_entry ''m2'' 2 Null None))"
    "r_details (success_entry ''m2'' 2 Null None) = Val (example_details ''m2'' None)"
    "truthy (r_error (error_entry ''m3'' 3 ''timeout''))"
    "r_matchId (error_entry ''m3'' 3 ''timeout'') \<noteq> r_matchId (success_entry ''m1'' 1 Null None)"
    "r_matchId (error_entry ''m3'' 3 ''timeout'') \<noteq> r_matchId (success_entry ''m2'' 2 Null None)"
    by (simp_all add: success_entry_def error_entry_def)
  have ids: "r_matchId (success_entry ''m1'' 1 Null None) = ''m1''"
    "r_matchId (success_entry ''m2'' 2 Null None) = ''m2''"
    "r_matchId (error_entry ''m3'' 3 ''timeout'') = ''m3''"
    "processingAttempts (example_match ''m3'' (Val 3) 30 ''pending'') = Some 0"
    by (simp_all add: success_entry_def error_entry_def example_match_def)
  from export_then_import [OF h1 h2 h3 h4 h5 h6, of "\<lambda>i. i" "\<lambda>i. 100 + i" "[]"] h1 h2 h5
  show ?thesis unfolding ids by simp
qed

text \<open>
  On five pending matches with \<open>processingAttempts = 0\<close> the counter of the errored match
  is still \<open>0\<close> after export and import, not \<open>1\<close>.
\<close>

theorem export_then_import_counterexample:
  "map length (shards (final_state (export_batches (\<lambda>name. True) (\<lambda>i. i) 2 0 [] [] five_pending)))
     = [2, 2, 1]
   \<and> map_option processingAttempts (find_match ''m3'' five_pending) = Some (Some 0)
   \<and> map_option processingAttempts
       (find_match ''m3''
          (matches (import_file (\<lambda>i. 100 + i)
             (import_start
                (coll (final_state (export_batches (\<lambda>name. True) (\<lambda>i. i) 2 0 [] [] five_pending)))
                [])
             [success_entry ''m1'' 1 Null None, success_entry ''m2'' 2 Null None,
              error_entry ''m3'' 3 ''timeout''])))
     = Some (Some 0)"
proof -
  have p: "list_all (\<lambda>m. processingStatus m = ''pending'') five_pending"
    and f: "find_match ''m3'' five_pending = Some (example_match ''m3'' (Val 3) 30 ''pending'')"
    and l: "length five_pending = 5"
    by (simp_all add: five_pending_def example_match_def find_match_def)
  from export_all_pending [OF p f, of "\<lambda>i. i" 2] obtain st q where
    r: "export_batches (\<lambda>name. True) (\<lambda>i. i) 2 0 [] [] five_pending = Inr st"
    and sh: "shards st = chunks (nat 2) (map project (sort_key scrapeId_key five_pending))"
    and q: "find_match ''m3'' (coll st) = Some q"
    and q': "q = (example_match ''m3'' (Val 3) 30 ''pending'')
                   \<lparr> processingStatus := ''queued'', updatedAt := updatedAt q \<rparr>"
    by blast
  have fs: "final_state (export_batches (\<lambda>name. True) (\<lambda>i. i) 2 0 [] [] five_pending) = st"
    by (simp add: r final_state_def)
  have len: "map length (shards st) = [2, 2, 1]"
    unfolding sh using l by (simp add: chunks_five)
  have qa: "processingAttempts q = Some 0"
    by (subst q') (simp add: example_match_def)
  have "find_match ''m3'' (matches (import_start (coll st) [])) = Some q"
    using q by (simp add: import_start_def)
  from import_file_attempts [OF this, of "\<lambda>i. 100 + i"
         "[success_entry ''m1'' 1 Null None, success_entry ''m2'' 2 Null None,
           error_entry ''m3'' 3 ''timeout'']"] qa
  have "map_option processingAttempts
       (find_match ''m3''
          (matches (import_file (\<lambda>i. 100 + i) (import_start (coll st) [])
             [success_entry ''m1'' 1 Null None, success_entry ''m2'' 2 Null None,
              error_entry ''m3'' 3 ''timeout''])))
     = Some (Some 0)" by auto
  with len f show ?thesis unfolding fs by (simp add: example_match_def)
qed

lemma find_details_update_first:
  "dd_matchId (f d0) = k \<Longrightarrow> find_details k docs = Some d0 \<Longrightarrow>
   find_details k (update_first (\<lambda>d. dd_matchId d = k) f docs) = Some (f d0)"
  by (induction docs) (auto simp: find_details_def split: if_splits)

lemma find_details_append_new:
  "find_details k docs = None \<Longrightarrow> dd_matchId d = k \<Longrightarrow>
   find_details k (docs @ [d]) = Some d"
  by (induction docs) (auto simp: find_details_def split: if_splits)

lemma list_ex_find_details:
  "list_ex (\<lambda>d. dd_matchId d = k) docs \<longleftrightarrow> find_details k docs \<noteq> None"
  by (induction docs) (auto simp: find_details_def)

lemma find_details_upsert:
  "d_matchId d = k \<Longrightarrow>
   \<exists>doc. find_details k (upsert_details k (Val d) now docs) = Some doc
        \<and> dd_matchId doc = k \<and> dd_body doc = Some (d_body d) \<and> dd_updatedAt doc = now
        \<and> (case d_internalId d of Some i \<Rightarrow> dd_internalId doc = Some i
            | None \<Rightarrow> dd_internalId doc = Option.bind (find_details k docs) dd_internalId)"
proof (cases "find_details k docs")
  case None
  assume k: "d_matchId d = k"
  let ?new = "set_details (Val d) now
                \<lparr> dd_matchId = k, dd_internalId = None, dd_body = None, dd_updatedAt = now \<rparr>"
  have "dd_matchId ?new = k" using k by (simp add: set_details_def)
  from find_details_append_new [OF None this] None show ?thesis
    by (auto simp: upsert_details_def list_ex_find_details set_details_def k split: option.splits)
next
  case (Some d0)
  assume k: "d_matchId d = k"
  have "dd_matchId (set_details (Val d) now d0) = k" using k by (simp add: set_details_def)
  from find_details_update_first [of "set_details (Val d) now" d0 k docs, OF this Some] Some
  show ?thesis
    by (auto simp: upsert_details_def list_ex_find_details set_details_def k split: option.splits)
qed

lemma length_update_first [simp]: "length (update_first p f xs) = length xs"
  by (induction xs) auto

lemma length_upsert_details:
  "length (upsert_details k df now docs)
     = (if find_details k docs = None then length docs + 1 else length docs)"
  by (simp add: upsert_details_def list_ex_find_details)

text \<open>
  C5 (as amended). A success entry sets the status of its match to \<open>complete\<close>, its date to
  \<open>dateInfo.parsedDate\<close> when there is one and to \<open>null\<close> otherwise, and its \<open>internalId\<close>
  to \<open>dateInfo.properInternalId\<close> when there is one and to the \<open>internalId\<close> of the details
  otherwise; the other fields of the match are left as they were. The details are
  upserted under the \<open>matchId\<close>: one document is added if there was none, and the first
  document of that \<open>matchId\<close> then holds the body of the entry's details.
\<close>

theorem import_entry_success:
  assumes ok: "\<not> truthy (r_error r)" and d: "r_details r = Val d"
    and m: "find_match (r_matchId r) (matches st) = Some m"
  shows "find_match (r_matchId r) (matches (import_entry clock st r))
           = Some (m\<lparr> processingStatus := ''complete'',
                      date := (case r_dateInfo r of
                                 Val di \<Rightarrow> (case parsedDate di of
                                              Some s \<Rightarrow> if s \<noteq> [] then Some s else None
                                            | None \<Rightarrow> None)
                               | _ \<Rightarrow> None),
                      internalId := (case r_dateInfo r of
                                       Val di \<Rightarrow> if properInternalId di \<noteq> []
                                                 then Some (properInternalId di)
                                                 else d_internalId d
                                     | _ \<Rightarrow> d_internalId d),
                      updatedAt := Some (clock (totalProcessed st + 1)) \<rparr>)
         \<and> length (match_details (import_entry clock st r))
             = (if find_details (r_matchId r) (match_details st) = None
                then length (match_details st) + 1 else length (match_details st))
         \<and> (d_matchId d = r_matchId r \<longrightarrow>
              (\<exists>doc. find_details (r_matchId r) (match_details (import_entry clock st r)) = Some doc
                    \<and> dd_body doc = Some (d_body d)
                    \<and> dd_updatedAt doc = clock (totalProcessed st + 1)))"
proof -
  have iid: "entry_internalId r
               = Inr (case r_dateInfo r of
                        Val di \<Rightarrow> if properInternalId di \<noteq> [] then Some (properInternalId di)
                                  else d_internalId d
                      | _ \<Rightarrow> d_internalId d)"
    using d by (simp add: entry_internalId_def details_internalId_def split: field.splits)
  then have te: "takes_effect r" using ok by (simp add: takes_effect_def)
  have 1: "find_match (r_matchId r) (matches (import_entry clock st r))
           = Some (m\<lparr> processingStatus := ''complete'', date := entry_date r,
                      internalId := (case r_dateInfo r of
                                       Val di \<Rightarrow> if properInternalId di \<noteq> []
                                                 then Some (properInternalId di)
                                                 else d_internalId d
                                     | _ \<Rightarrow> d_internalId d),
                      updatedAt := Some (clock (totalProcessed st + 1)) \<rparr>)"
    using te m by (simp add: find_match_import_entry iid)
  from import_entry_effect [OF te, of clock st]
  have md: "match_details (import_entry clock st r)
        = upsert_details (r_matchId r) (Val d) (clock (totalProcessed st + 1)) (match_details st)"
    using d by auto
  have 3: "d_matchId d = r_matchId r \<longrightarrow>
              (\<exists>doc. find_details (r_matchId r) (match_details (import_entry clock st r)) = Some doc
                    \<and> dd_body doc = Some (d_body d)
                    \<and> dd_updatedAt doc = clock (totalProcessed st + 1))"
    using find_details_upsert [of d "r_matchId r" "clock (totalProcessed st + 1)" "match_details st"]
    unfolding md by auto
  from 1 3 show ?thesis
    unfolding md by (simp add: entry_date_def length_upsert_details)
qed

theorem import_entry_success_witness:
  "find_match ''m1''
     (matches (import_entry (\<lambda>i. 100 + i) (import_start [example_match ''m1'' (Val 1) 10 ''queued''] [])
        (success_entry ''m1'' 1
           (Val \<lparr>parsedDate = Some ''2025-04-25T15:00:00.000Z'',
                 properInternalId = ''20250425_a_vs_b''\<rparr>) None)))
     = Some ((example_match ''m1'' (Val 1) 10 ''complete'')
               \<lparr> date := Some ''2025-04-25T15:00:00.000Z'',
                 internalId := Some ''20250425_a_vs_b'', updatedAt := Some 101 \<rparr>)
   \<and> (\<exists>doc. find_details ''m1''
         (match_details (import_entry (\<lambda>i. 100 + i)
             (import_start [example_match ''m1'' (Val 1) 10 ''queued''] [])
             (success_entry ''m1'' 1
                (Val \<lparr>parsedDate = Some ''2025-04-25T15:00:00.000Z'',
                      properInternalId = ''20250425_a_vs_b''\<rparr>) None))) = Some doc
        \<and> dd_body doc = Some (d_body (example_details ''m1'' None)))"
proof -
  let ?r = "success_entry ''m1'' 1
           (Val \<lparr>parsedDate = Some ''2025-04-25T15:00:00.000Z'',
                 properInternalId = ''20250425_a_vs_b''\<rparr>) None"
  let ?st = "import_start [example_match ''m1'' (Val 1) 10 ''queued''] []"
  have h: "\<not> truthy (r_error ?r)" "r_details ?r = Val (example_details ''m1'' None)"
    "find_match (r_matchId ?r) (matches ?st) = Some (example_match ''m1'' (Val 1) 10 ''queued'')"
    by (simp_all add: success_entry_def import_start_def find_match_def example_match_def)
  have e: "r_matchId ?r = ''m1''" "d_matchId (example_details ''m1'' None) = ''m1''"
    "r_dateInfo ?r = Val \<lparr>parsedDate = Some ''2025-04-25T15:00:00.000Z'',
                 properInternalId = ''20250425_a_vs_b''\<rparr>"
    "totalProcessed ?st = 0"
    by (simp_all add: success_entry_def example_details_def import_start_def)
  note t = import_entry_success [OF h, of "\<lambda>i. 100 + i", unfolded e]
  from t have a: "find_match ''m1'' (matches (import_entry (\<lambda>i. 100 + i) ?st ?r))
     = Some ((example_match ''m1'' (Val 1) 10 ''complete'')
               \<lparr> date := Some ''2025-04-25T15:00:00.000Z'',
                 internalId := Some ''20250425_a_vs_b'', updatedAt := Some 101 \<rparr>)"
    by (simp add: example_match_def)
  from t have b: "\<exists>doc. find_details ''m1'' (match_details (import_entry (\<lambda>i. 100 + i) ?st ?r)) = Some doc
        \<and> dd_body doc = Some (d_body (example_details ''m1'' None))"
    by auto
  from a b show ?thesis by (rule conjI)
qed

text \<open>
  A success entry without \<open>dateInfo\<close> sets the date of a match that had one to \<open>null\<close>.
\<close>

theorem import_entry_date_counterexample:
  "map_option date
     (find_match ''m1''
        [(example_match ''m1'' (Val 1) 10 ''queued'')\<lparr> date := Some ''2025-04-25T15:00:00.000Z'' \<rparr>])
     = Some (Some ''2025-04-25T15:00:00.000Z'')
   \<and> map_option date
       (find_match ''m1''
          (matches (import_entry (\<lambda>i. 100 + i)
             (import_start
                [(example_match ''m1'' (Val 1) 10 ''queued'')
                   \<lparr> date := Some ''2025-04-25T15:00:00.000Z'' \<rparr>] [])
             (success_entry ''m1'' 1 Null (Some ''20250425_a_vs_b'')))))
     = Some None"
  by (simp add: find_match_def example_match_def import_entry_def import_start_def
        success_entry_def Let_def entry_internalId_def details_internalId_def entry_date_def
        set_complete_def example_details_def)

section \<open>Properties of the workers\<close>

lemma worker_entry_ids:
  "r_matchId (worker_entry now scrape row) = row_matchId row"
  "r_scrapeId (worker_entry now scrape row) = row_scrapeId row"
  by (simp_all add: worker_entry_def split: sum.splits)

lemma worker_entry_outcome: "worker_outcome scrape (worker_entry now scrape row)"
  by (simp add: worker_outcome_def worker_entry_def success_shape_def failure_shape_def
        split: sum.splits option.splits)

lemma worker_entry_exactly_one: "exactly_one (worker_entry now scrape row)"
  by (simp add: worker_entry_def exactly_one_def split: sum.splits)

lemma batch_loop_matchId:
  "map r_matchId (batch_loop clock scrape batch results)
     = map r_matchId results @ map row_matchId batch"
  by (induction batch arbitrary: results) (simp_all add: worker_entry_ids)

lemma batch_loop_scrapeId:
  "map r_scrapeId (batch_loop clock scrape batch results)
     = map r_scrapeId results @ map row_scrapeId batch"
  by (induction batch arbitrary: results) (simp_all add: worker_entry_ids)

lemma batch_loop_all:
  "(\<And>now row. P (worker_entry now scrape row)) \<Longrightarrow> list_all P results \<Longrightarrow>
   list_all P (batch_loop clock scrape batch results)"
  by (induction batch arbitrary: results) simp_all

lemma mem_entry_ids:
  "r_matchId (mem_entry scrape row) = row_matchId row"
  by (simp_all add: mem_entry_def split: sum.splits)

lemma mem_entry_outcome: "mem_outcome scrape (mem_entry scrape row)"
  by (simp add: mem_outcome_def mem_entry_def failure_shape_def split: sum.splits)

lemma mem_loop_all:
  "(\<And>row. P (mem_entry scrape row)) \<Longrightarrow> list_all P results \<Longrightarrow>
   list_all P (mem_loop scrape batch results)"
  by (induction batch arbitrary: results) simp_all

text \<open>
  C6 (as amended). The entries scrape-batch.js writes follow the shard row by row, each
  with the \<open>matchId\<close> and \<open>scrapeId\<close> of its row; an entry for a match whose scrape
  succeeded carries \<open>details\<close> and \<open>dateInfo\<close> and no \<open>error\<close>, an entry for a match whose
  scrape failed carries the \<open>error\<close> message and neither \<open>details\<close> nor \<open>dateInfo\<close>, so
  that every entry has exactly one of \<open>details\<close> and \<open>error\<close>. scrape-batch-with-mem.js
  writes the same failure entries, and success entries that carry neither.
\<close>

theorem scrape_batch_entries:
  "map r_matchId (scrape_batch clock scrape batch) = map row_matchId batch
   \<and> map r_scrapeId (scrape_batch clock scrape batch) = map row_scrapeId batch
   \<and> list_all exactly_one (scrape_batch clock scrape batch)
   \<and> list_all (worker_outcome scrape) (scrape_batch clock scrape batch)
   \<and> list_all (mem_outcome scrape) (scrape_batch_with_mem SAMPLE scrape batch)"
  unfolding scrape_batch_def scrape_batch_with_mem_def
  by (simp add: batch_loop_matchId batch_loop_scrapeId batch_loop_all worker_entry_exactly_one
        worker_entry_outcome mem_loop_all mem_entry_outcome)

text \<open>
  The result of scrape-batch-with-mem.js for one row whose scrape succeeds: an entry with
  neither \<open>details\<close> nor \<open>error\<close>.
\<close>

theorem scrape_batch_with_mem_counterexample:
  "\<not> list_all exactly_one
       (scrape_batch_with_mem 0 (\<lambda>mid. Inr example_summary)
          [\<lparr>row_scrapeId = Val 1, row_matchId = ''m1''\<rparr>])"
  by (simp add: scrape_batch_with_mem_def mem_entry_def exactly_one_def)

section \<open>Idempotence of the import\<close>

subsection \<open>Runs of updates\<close>

lemma key_apply_ops:
  "(\<And>r x. r \<in> set rs \<Longrightarrow> key x = k \<Longrightarrow> key (op r x) = k) \<Longrightarrow> key x = k \<Longrightarrow>
   key (apply_ops op rs x) = k"
  unfolding apply_ops_def
  by (induction rs arbitrary: x) auto

lemma update_one_head:
  assumes kp: "\<And>r y. key (op r y) = key y"
  shows "foldl (update_one key rk op) (x # xs) rs
         = apply_ops op (filter (\<lambda>r. rk r = key x) rs) x
           # foldl (update_one key rk op) xs (filter (\<lambda>r. rk r \<noteq> key x) rs)"
proof (induction rs arbitrary: x xs)
  case Nil
  show ?case by (simp add: apply_ops_def)
next
  case (Cons r rs)
  show ?case
  proof (cases "rk r = key x")
    case True
    then have "update_one key rk op (x # xs) r = op r x # xs"
      by (simp add: update_one_def)
    with True Cons [of "op r x" xs] kp [of r x] show ?thesis
      by (simp add: apply_ops_def)
  next
    case False
    then have "update_one key rk op (x # xs) r = x # update_one key rk op xs r"
      by (auto simp: update_one_def)
    with False Cons [of x "update_one key rk op xs r"] show ?thesis
      by simp
  qed
qed

lemma update_one_idem:
  assumes kp: "\<And>r y. key (op r y) = key y"
    and idem: "\<And>es y. apply_ops op es (apply_ops op es y) = apply_ops op es y"
  shows "foldl (update_one key rk op) (foldl (update_one key rk op) xs rs) rs
         = foldl (update_one key rk op) xs rs"
proof (induction xs arbitrary: rs)
  case Nil
  have "foldl (update_one key rk op) [] rs = []" for rs
    by (induction rs) (simp_all add: update_one_def)
  then show ?case by simp
next
  case (Cons x xs)
  let ?es = "filter (\<lambda>r. rk r = key x) rs" and ?rs' = "filter (\<lambda>r. rk r \<noteq> key x) rs"
  have k: "key (apply_ops op ?es x) = key x"
    by (rule key_apply_ops) (simp_all add: kp)
  show ?case
    unfolding update_one_head [of key op, OF kp, of rk x xs rs]
    unfolding update_one_head [of key op, OF kp, of rk "apply_ops op ?es x" _ rs] k
    by (simp add: idem Cons.IH)
qed

subsection \<open>Runs of upserts\<close>

lemma upsert_one_head:
  assumes kp: "\<And>r y. r \<in> set rs \<Longrightarrow> key y = rk r \<Longrightarrow> key (op r y) = rk r"
  shows "foldl (upsert_one key rk op base) (x # xs) rs
         = apply_ops op (filter (\<lambda>r. rk r = key x) rs) x
           # foldl (upsert_one key rk op base) xs (filter (\<lambda>r. rk r \<noteq> key x) rs)"
  using kp
proof (induction rs arbitrary: x xs)
  case Nil
  show ?case by (simp add: apply_ops_def)
next
  case (Cons r rs)
  have kp': "\<And>r y. r \<in> set rs \<Longrightarrow> key y = rk r \<Longrightarrow> key (op r y) = rk r"
    using Cons.prems by simp
  show ?case
  proof (cases "rk r = key x")
    case True
    then have "upsert_one key rk op base (x # xs) r = op r x # xs"
      by (simp add: upsert_one_def)
    moreover have "key (op r x) = key x" using Cons.prems [of r x] True by simp
    ultimately show ?thesis
      using True Cons.IH [of "op r x" xs, OF kp'] by (simp add: apply_ops_def)
  next
    case False
    then have "upsert_one key rk op base (x # xs) r = x # upsert_one key rk op base xs r"
      by (auto simp: upsert_one_def)
    with False Cons.IH [of x "upsert_one key rk op base xs r", OF kp'] show ?thesis
      by simp
  qed
qed

lemma upsert_one_empty:
  assumes kp: "\<And>r' y. r' \<in> set rs \<Longrightarrow> key y = rk r' \<Longrightarrow> key (op r' y) = rk r'"
    and kr: "key (op r (base (rk r))) = rk r"
  shows "foldl (upsert_one key rk op base) [] (r # rs)
         = apply_ops op (r # filter (\<lambda>r'. rk r' = rk r) rs) (base (rk r))
           # foldl (upsert_one key rk op base) [] (filter (\<lambda>r'. rk r' \<noteq> rk r) rs)"
proof -
  have "foldl (upsert_one key rk op base) [] (r # rs)
        = foldl (upsert_one key rk op base) [op r (base (rk r))] rs"
    by (simp add: upsert_one_def)
  also have "\<dots> = apply_ops op (filter (\<lambda>r'. rk r' = rk r) rs) (op r (base (rk r)))
           # foldl (upsert_one key rk op base) [] (filter (\<lambda>r'. rk r' \<noteq> rk r) rs)"
    using upsert_one_head [where rs = rs and key = key and rk = rk and op = op and base = base
        and x = "op r (base (rk r))" and xs = "[]"] kp kr by simp
  finally show ?thesis by (simp add: apply_ops_def)
qed

lemma upsert_one_idem_empty:
  assumes kp: "\<And>r y. r \<in> set rs \<Longrightarrow> key y = rk r \<Longrightarrow> key (op r y) = rk r"
    and kb: "\<And>k. key (base k) = k"
    and idem: "\<And>es y. apply_ops op es (apply_ops op es y) = apply_ops op es y"
  shows "foldl (upsert_one key rk op base) (foldl (upsert_one key rk op base) [] rs) rs
         = foldl (upsert_one key rk op base) [] rs"
  using kp
proof (induction "length rs" arbitrary: rs rule: less_induct)
  case less
  show ?case
  proof (cases rs)
    case Nil
    then show ?thesis by simp
  next
    case (Cons r rs0)
    let ?k = "rk r"
    let ?es = "filter (\<lambda>r'. rk r' = ?k) rs0" and ?rs' = "filter (\<lambda>r'. rk r' \<noteq> ?k) rs0"
    let ?X = "apply_ops op (r # ?es) (base ?k)"
    let ?Y = "foldl (upsert_one key rk op base) [] ?rs'"
    have kp0: "\<And>r' y. r' \<in> set rs0 \<Longrightarrow> key y = rk r' \<Longrightarrow> key (op r' y) = rk r'"
      using less.prems Cons by simp
    have kr: "key (op r (base ?k)) = ?k"
      using less.prems [of r "base ?k"] Cons kb by simp
    have first: "foldl (upsert_one key rk op base) [] rs = ?X # ?Y"
      unfolding Cons
      by (rule upsert_one_empty [where key = key and rk = rk and op = op and base = base])
         (use kp0 kr in auto)
    have kX: "key ?X = ?k"
      by (rule key_apply_ops [where k = ?k]) (use less.prems Cons kb in auto)
    have kp1: "\<And>r' y. r' \<in> set rs \<Longrightarrow> key y = rk r' \<Longrightarrow> key (op r' y) = rk r'"
      using less.prems by simp
    have second: "foldl (upsert_one key rk op base) (?X # ?Y) rs
          = apply_ops op (filter (\<lambda>r'. rk r' = key ?X) rs) ?X
            # foldl (upsert_one key rk op base) ?Y (filter (\<lambda>r'. rk r' \<noteq> key ?X) rs)"
      by (rule upsert_one_head [where key = key and rk = rk and op = op and base = base])
         (use kp1 in auto)
    have f1: "filter (\<lambda>r'. rk r' = key ?X) rs = r # ?es" unfolding kX Cons by simp
    have f2: "filter (\<lambda>r'. rk r' \<noteq> key ?X) rs = ?rs'" unfolding kX Cons by simp
    have "length ?rs' < length rs" unfolding Cons by (simp add: less_Suc_eq_le)
    moreover have "\<And>r' y. r' \<in> set ?rs' \<Longrightarrow> key y = rk r' \<Longrightarrow> key (op r' y) = rk r'"
      using kp0 by simp
    ultimately have ih: "foldl (upsert_one key rk op base) ?Y ?rs' = ?Y"
      using less.hyps [of ?rs'] by blast
    show ?thesis
      unfolding first second f1 f2 ih by (simp add: idem)
  qed
qed

lemma upsert_one_idem:
  assumes kp: "\<And>r y. r \<in> set rs \<Longrightarrow> key y = rk r \<Longrightarrow> key (op r y) = rk r"
    and kb: "\<And>k. key (base k) = k"
    and idem: "\<And>es y. apply_ops op es (apply_ops op es y) = apply_ops op es y"
  shows "foldl (upsert_one key rk op base) (foldl (upsert_one key rk op base) xs rs) rs
         = foldl (upsert_one key rk op base) xs rs"
  using kp
proof (induction xs arbitrary: rs)
  case Nil
  show ?case
    by (rule upsert_one_idem_empty [where key = key and rk = rk and op = op and base = base])
       (use Nil kb idem in auto)
next
  case (Cons x xs)
  let ?es = "filter (\<lambda>r. rk r = key x) rs" and ?rs' = "filter (\<lambda>r. rk r \<noteq> key x) rs"
  have k: "key (apply_ops op ?es x) = key x"
    by (rule key_apply_ops) (use Cons.prems in auto)
  have kp': "\<And>r y. r \<in> set ?rs' \<Longrightarrow> key y = rk r \<Longrightarrow> key (op r y) = rk r"
    using Cons.prems by simp
  have h1: "foldl (upsert_one key rk op base) (x # xs) rs
         = apply_ops op ?es x # foldl (upsert_one key rk op base) xs ?rs'"
    by (rule upsert_one_head [where key = key and rk = rk and op = op and base = base])
       (use Cons.prems in auto)
  have h2: "foldl (upsert_one key rk op base)
              (apply_ops op ?es x # foldl (upsert_one key rk op base) xs ?rs') rs
         = apply_ops op (filter (\<lambda>r. rk r = key (apply_ops op ?es x)) rs) (apply_ops op ?es x)
           # foldl (upsert_one key rk op base) (foldl (upsert_one key rk op base) xs ?rs')
               (filter (\<lambda>r. rk r \<noteq> key (apply_ops op ?es x)) rs)"
    by (rule upsert_one_head [where key = key and rk = rk and op = op and base = base])
       (use Cons.prems in auto)
  have ih: "foldl (upsert_one key rk op base) (foldl (upsert_one key rk op base) xs ?rs') ?rs'
            = foldl (upsert_one key rk op base) xs ?rs'"
    using Cons.IH [of ?rs'] kp' by blast
  show ?case
    unfolding h1 h2 k ih by (simp add: idem)
qed

subsection \<open>The matches collection\<close>

lemma map_update_first:
  "(\<And>x. p' (h x) = p x) \<Longrightarrow> (\<And>x. h (f x) = f' (h x)) \<Longrightarrow>
   map h (update_first p f xs) = update_first p' f' (map h xs)"
  by (induction xs) auto

lemma untimed_matches_entry:
  "untimed_matches (import_entry clock st r)
     = (if takes_effect r
        then update_one matchId r_matchId untimed_complete (untimed_matches st) r
        else untimed_matches st)"
proof (cases "takes_effect r")
  case True
  then obtain iid where i: "entry_internalId r = Inr iid"
    by (auto simp: takes_effect_def split: sum.splits)
  have "map (\<lambda>m. m\<lparr> updatedAt := None \<rparr>)
          (update_first (\<lambda>m. matchId m = r_matchId r)
             (set_complete (entry_date r) iid (clock (totalProcessed st + 1))) (matches st))
        = update_first (\<lambda>m. matchId m = r_matchId r) (untimed_complete r)
            (map (\<lambda>m. m\<lparr> updatedAt := None \<rparr>) (matches st))"
    by (rule map_update_first) (simp_all add: set_complete_def untimed_complete_def entry_iid_def i)
  with True i show ?thesis
    by (simp add: untimed_matches_def import_entry_def takes_effect_def Let_def update_one_def)
next
  case False
  then show ?thesis
    by (auto simp: untimed_matches_def import_entry_def takes_effect_def Let_def
          split: sum.splits)
qed

lemma untimed_matches_file:
  "untimed_matches (import_file clock st rs)
     = foldl (update_one matchId r_matchId untimed_complete) (untimed_matches st)
         (filter takes_effect rs)"
proof (induction rs rule: rev_induct)
  case Nil
  show ?case by (simp add: import_file_def)
next
  case (snoc r rs)
  have "import_file clock st (rs @ [r]) = import_entry clock (import_file clock st rs) r"
    by (simp add: import_file_def)
  with snoc show ?case by (simp add: untimed_matches_entry)
qed

lemma apply_untimed_complete:
  "es \<noteq> [] \<Longrightarrow> apply_ops untimed_complete es y = untimed_complete (last es) y"
proof (induction es rule: rev_induct)
  case Nil
  then show ?case by simp
next
  case (snoc r es)
  show ?case
  proof (cases "es = []")
    case True
    then show ?thesis by (simp add: apply_ops_def)
  next
    case False
    with snoc have "apply_ops untimed_complete es y = untimed_complete (last es) y" by simp
    then show ?thesis by (simp add: apply_ops_def untimed_complete_def)
  qed
qed

lemma apply_untimed_complete_idem:
  "apply_ops untimed_complete es (apply_ops untimed_complete es y) = apply_ops untimed_complete es y"
proof (cases "es = []")
  case True
  then show ?thesis by (simp add: apply_ops_def)
next
  case False
  then show ?thesis by (simp add: apply_untimed_complete) (simp add: untimed_complete_def)
qed

lemma untimed_matches_start [simp]:
  "untimed_matches (import_start ms ds) = map (\<lambda>m. m\<lparr> updatedAt := None \<rparr>) ms"
  by (simp add: untimed_matches_def import_start_def)

lemma untimed_matches_again:
  "untimed_matches (import_start (matches st) ds) = untimed_matches st"
  by (simp add: untimed_matches_def import_start_def)

lemma import_matches_idem:
  "untimed_matches
     (import_file clock2 (import_start (matches (import_file clock1 st rs)) ds) rs)
   = untimed_matches (import_file clock1 st rs)"
proof -
  let ?U = "update_one matchId r_matchId untimed_complete"
  let ?ers = "filter takes_effect rs"
  have "foldl ?U (foldl ?U (untimed_matches st) ?ers) ?ers = foldl ?U (untimed_matches st) ?ers"
    by (rule update_one_idem) (simp_all add: untimed_complete_def apply_untimed_complete_idem)
  then show ?thesis
    by (simp only: untimed_matches_file untimed_matches_again)
qed

subsection \<open>The details collection\<close>

lemma untimed_upsert:
  "map (\<lambda>d. d\<lparr> dd_updatedAt := 0 \<rparr>) (upsert_details k df now ds)
     = upsert_details k df 0 (map (\<lambda>d. d\<lparr> dd_updatedAt := 0 \<rparr>) ds)"
proof -
  have ex: "list_ex (\<lambda>d. dd_matchId d = k) (map (\<lambda>d. d\<lparr> dd_updatedAt := 0 \<rparr>) ds)
            = list_ex (\<lambda>d. dd_matchId d = k) ds"
    by (induction ds) auto
  have u: "map (\<lambda>d. d\<lparr> dd_updatedAt := 0 \<rparr>)
             (update_first (\<lambda>d. dd_matchId d = k) (set_details df now) ds)
           = update_first (\<lambda>d. dd_matchId d = k) (set_details df 0)
               (map (\<lambda>d. d\<lparr> dd_updatedAt := 0 \<rparr>) ds)"
    by (rule map_update_first) (simp_all add: set_details_def split: field.splits option.splits)
  show ?thesis
    by (simp add: upsert_details_def ex u)
       (simp add: set_details_def split: field.splits option.splits)
qed

lemma untimed_details_entry:
  "untimed_details (import_entry clock st r)
     = (if takes_effect r
        then upsert_one dd_matchId r_matchId untimed_set_details new_details_doc
               (untimed_details st) r
        else untimed_details st)"
proof (cases "takes_effect r")
  case True
  then obtain iid where i: "entry_internalId r = Inr iid"
    by (auto simp: takes_effect_def split: sum.splits)
  have "upsert_details (r_matchId r) (r_details r) 0 (untimed_details st)
        = upsert_one dd_matchId r_matchId untimed_set_details new_details_doc
               (untimed_details st) r"
    by (simp add: upsert_details_def upsert_one_def untimed_set_details_def [abs_def]
          new_details_doc_def)
  with True i show ?thesis
    using untimed_upsert [of "r_matchId r" "r_details r" "clock (totalProcessed st + 1)"
            "match_details st"]
    by (simp add: untimed_details_def import_entry_def takes_effect_def Let_def)
next
  case False
  then show ?thesis
    by (auto simp: untimed_details_def import_entry_def takes_effect_def Let_def
          split: sum.splits)
qed

lemma untimed_details_file:
  "untimed_details (import_file clock st rs)
     = foldl (upsert_one dd_matchId r_matchId untimed_set_details new_details_doc)
         (untimed_details st) (filter takes_effect rs)"
proof (induction rs rule: rev_induct)
  case Nil
  show ?case by (simp add: import_file_def)
next
  case (snoc r rs)
  have "import_file clock st (rs @ [r]) = import_entry clock (import_file clock st rs) r"
    by (simp add: import_file_def)
  with snoc show ?case by (simp add: untimed_details_entry)
qed

lemma untimed_set_details_assign:
  "\<exists>a b c. \<forall>y. untimed_set_details r y = assign_details a b c y"
proof (cases "r_details r")
  case (Val d)
  have "\<forall>y. untimed_set_details r y
            = assign_details (Some (d_matchId d)) (d_internalId d) (Some (d_body d)) y"
    by (simp add: untimed_set_details_def set_details_def assign_details_def Val)
  then show ?thesis by blast
next
  case Absent
  have "\<forall>y. untimed_set_details r y = assign_details None None None y"
    by (simp add: untimed_set_details_def set_details_def assign_details_def Absent)
  then show ?thesis by blast
next
  case Null
  have "\<forall>y. untimed_set_details r y = assign_details None None None y"
    by (simp add: untimed_set_details_def set_details_def assign_details_def Null)
  then show ?thesis by blast
qed

lemma assign_details_twice:
  "assign_details a' b' c' (assign_details a b c y)
     = assign_details (case a' of Some k \<Rightarrow> Some k | None \<Rightarrow> a)
         (case b' of Some i \<Rightarrow> Some i | None \<Rightarrow> b)
         (case c' of Some x \<Rightarrow> Some x | None \<Rightarrow> c) y"
  by (simp add: assign_details_def split: option.splits)

lemma assign_details_idem:
  "assign_details a b c (assign_details a b c y) = assign_details a b c y"
  by (simp add: assign_details_def split: option.splits)

lemma apply_untimed_set_details:
  "es \<noteq> [] \<Longrightarrow> \<exists>a b c. \<forall>y. apply_ops untimed_set_details es y = assign_details a b c y"
proof (induction es rule: rev_induct)
  case Nil
  then show ?case by simp
next
  case (snoc r es)
  from untimed_set_details_assign [of r] obtain a' b' c' where
    r: "\<And>y. untimed_set_details r y = assign_details a' b' c' y" by blast
  show ?case
  proof (cases "es = []")
    case True
    with r show ?thesis by (auto simp: apply_ops_def)
  next
    case False
    with snoc obtain a b c where
      e: "\<And>y. apply_ops untimed_set_details es y = assign_details a b c y" by blast
    have "\<forall>y. apply_ops untimed_set_details (es @ [r]) y
             = assign_details (case a' of Some k \<Rightarrow> Some k | None \<Rightarrow> a)
                 (case b' of Some i \<Rightarrow> Some i | None \<Rightarrow> b)
                 (case c' of Some x \<Rightarrow> Some x | None \<Rightarrow> c) y"
      using e r assign_details_twice by (simp add: apply_ops_def)
    then show ?thesis by blast
  qed
qed

lemma apply_untimed_set_details_idem:
  "apply_ops untimed_set_details es (apply_ops untimed_set_details es y)
     = apply_ops untimed_set_details es y"
proof (cases "es = []")
  case True
  then show ?thesis by (simp add: apply_ops_def)
next
  case False
  from apply_untimed_set_details [OF this] obtain a b c where
    "\<And>y. apply_ops untimed_set_details es y = assign_details a b c y" by blast
  then show ?thesis by (simp add: assign_details_idem)
qed

lemma untimed_details_again:
  "untimed_details (import_start ms (match_details st)) = untimed_details st"
  by (simp add: untimed_details_def import_start_def)

lemma worker_shaped_key:
  "worker_shaped r \<Longrightarrow> dd_matchId y = r_matchId r \<Longrightarrow>
   dd_matchId (untimed_set_details r y) = r_matchId r"
  by (simp add: worker_shaped_def untimed_set_details_def set_details_def split: field.splits)

lemma import_details_idem:
  assumes ws: "list_all worker_shaped rs"
  shows "untimed_details
     (import_file clock2 (import_start ms (match_details (import_file clock1 st rs))) rs)
   = untimed_details (import_file clock1 st rs)"
proof -
  let ?U = "upsert_one dd_matchId r_matchId untimed_set_details new_details_doc"
  let ?ers = "filter takes_effect rs"
  have kp: "\<And>r y. r \<in> set ?ers \<Longrightarrow> dd_matchId y = r_matchId r \<Longrightarrow>
              dd_matchId (untimed_set_details r y) = r_matchId r"
    using ws by (auto simp: list_all_iff intro: worker_shaped_key)
  have "foldl ?U (foldl ?U (untimed_details st) ?ers) ?ers = foldl ?U (untimed_details st) ?ers"
    by (rule upsert_one_idem [where key = dd_matchId and rk = r_matchId
          and op = untimed_set_details and base = new_details_doc])
       (use kp in \<open>auto simp: new_details_doc_def apply_untimed_set_details_idem\<close>)
  then show ?thesis
    by (simp only: untimed_details_file untimed_details_again)
qed

lemma worker_entry_shaped: "worker_shaped (worker_entry now scrape row)"
  by (simp add: worker_shaped_def worker_entry_def createMatchDetails_def split: sum.splits)

lemma batch_loop_shaped:
  "list_all worker_shaped results \<Longrightarrow> list_all worker_shaped (batch_loop clock scrape batch results)"
  by (induction batch arbitrary: results) (simp_all add: worker_entry_shaped)

text \<open>
  Where the details of an entry name another match than the entry, the upsert is keyed
  by one \<open>matchId\<close> and writes another: on a collection without a unique index, each
  import of an entry for \<open>m1\<close> whose details name \<open>m2\<close> finds no document of \<open>m1\<close> and
  inserts a further document of \<open>m2\<close>.
\<close>

lemma upsert_under_other_matchId:
  "match_details (import_file (\<lambda>i. 100 + i) (import_start [] [])
      [\<lparr> r_matchId = ''m1'', r_scrapeId = Val 1, r_details = Val (example_details ''m2'' None),
         r_dateInfo = Null, r_error = JUndefined \<rparr>])
     = [\<lparr> dd_matchId = ''m2'', dd_internalId = None,
          dd_body = Some (d_body (example_details ''m2'' None)), dd_updatedAt = 101 \<rparr>]
   \<and> match_details (import_file (\<lambda>i. 200 + i)
        (import_start []
           [\<lparr> dd_matchId = ''m2'', dd_internalId = None,
              dd_body = Some (d_body (example_details ''m2'' None)), dd_updatedAt = 101 \<rparr>])
        [\<lparr> r_matchId = ''m1'', r_scrapeId = Val 1, r_details = Val (example_details ''m2'' None),
           r_dateInfo = Null, r_error = JUndefined \<rparr>])
     = [\<lparr> dd_matchId = ''m2'', dd_internalId = None,
          dd_body = Some (d_body (example_details ''m2'' None)), dd_updatedAt = 101 \<rparr>,
        \<lparr> dd_matchId = ''m2'', dd_internalId = None,
          dd_body = Some (d_body (example_details ''m2'' None)), dd_updatedAt = 201 \<rparr>]"
  by (simp add: import_file_def import_entry_def import_start_def Let_def entry_internalId_def
        details_internalId_def upsert_details_def set_details_def example_details_def)

text \<open>
  C4. Importing a result file a second time, on the store the first import left, changes
  nothing in the \<open>matches\<close> collection apart from \<open>updatedAt\<close>: status, date and
  \<open>internalId\<close> of every match are as the first import established them. For a file
  whose details carry the \<open>matchId\<close> of their entry it changes nothing in
  \<open>match_details\<close> either, apart from \<open>updatedAt\<close>: no document is added and none changes.
  Every file written by scrape-batch.js is such a file.
\<close>

theorem import_file_idempotent:
  "untimed_matches
     (import_file clock2
        (import_start (matches (import_file clock1 (import_start ms ds) results))
                      (match_details (import_file clock1 (import_start ms ds) results)))
        results)
   = untimed_matches (import_file clock1 (import_start ms ds) results)
   \<and> (list_all worker_shaped results \<longrightarrow>
        untimed_details
          (import_file clock2
             (import_start (matches (import_file clock1 (import_start ms ds) results))
                           (match_details (import_file clock1 (import_start ms ds) results)))
             results)
        = untimed_details (import_file clock1 (import_start ms ds) results))
   \<and> list_all worker_shaped (scrape_batch clock scrape batch)"
  by (simp add: import_matches_idem import_details_idem scrape_batch_def batch_loop_shaped)

theorem import_file_idempotent_witness:
  "list_all worker_shaped [success_entry ''m1'' 1 Null None, error_entry ''m3'' 3 ''timeout'']
   \<and> untimed_details
       (import_file (\<lambda>i. 200 + i)
          (import_start
             (matches (import_file (\<lambda>i. 100 + i) (import_start five_pending [])
                 [success_entry ''m1'' 1 Null None, error_entry ''m3'' 3 ''timeout'']))
             (match_details (import_file (\<lambda>i. 100 + i) (import_start five_pending [])
                 [success_entry ''m1'' 1 Null None, error_entry ''m3'' 3 ''timeout''])))
          [success_entry ''m1'' 1 Null None, error_entry ''m3'' 3 ''timeout''])
     = [\<lparr> dd_matchId = ''m1'', dd_internalId = None,
          dd_body = Some (d_body (example_details ''m1'' None)), dd_updatedAt = 0 \<rparr>]"
proof -
  let ?rs = "[success_entry ''m1'' 1 Null None, error_entry ''m3'' 3 ''timeout'']"
  have ws: "list_all worker_shaped ?rs"
    by (simp add: worker_shaped_def success_entry_def error_entry_def example_details_def)
  have once: "untimed_details (import_file (\<lambda>i. 100 + i) (import_start five_pending []) ?rs)
     = [\<lparr> dd_matchId = ''m1'', dd_internalId = None,
          dd_body = Some (d_body (example_details ''m1'' None)), dd_updatedAt = 0 \<rparr>]"
    by (simp add: untimed_details_def import_file_def import_entry_def import_start_def
          success_entry_def error_entry_def Let_def entry_internalId_def details_internalId_def
          upsert_details_def set_details_def example_details_def)
  from import_file_idempotent [of "\<lambda>i. 200 + i" "\<lambda>i. 100 + i" five_pending "[]" ?rs] ws once
  show ?thesis by simp
qed

section \<open>Properties of the bulk insert\<close>

lemma insert_unordered_count:
  "insert_unordered docs new = (docs', n) \<Longrightarrow>
   n = card (matchId ` set new - matchId ` set docs)
   \<and> length docs' = length docs + n
   \<and> take (length docs) docs' = docs
   \<and> matchId ` set docs' = matchId ` set docs \<union> matchId ` set new"
proof (induction new arbitrary: docs docs' n)
  case Nil
  then show ?case by simp
next
  case (Cons d ds)
  show ?case
  proof (cases "matchId d \<in> matchId ` set docs")
    case True
    with Cons.prems have "insert_unordered docs ds = (docs', n)" by simp
    from Cons.IH [OF this] True show ?thesis
      by (auto simp: insert_Diff_if)
  next
    case False
    with Cons.prems obtain n' where r: "insert_unordered (docs @ [d]) ds = (docs', n')"
      and n: "n = n' + 1" by (auto split: prod.splits)
    from Cons.IH [OF r] have
      c: "n' = card (matchId ` set ds - matchId ` set (docs @ [d]))"
      and l: "length docs' = length (docs @ [d]) + n'"
      and t: "take (length (docs @ [d])) docs' = docs @ [d]"
      and s: "matchId ` set docs' = matchId ` set (docs @ [d]) \<union> matchId ` set ds" by auto
    have "matchId ` set (d # ds) - matchId ` set docs
          = insert (matchId d) (matchId ` set ds - matchId ` set (docs @ [d]))"
      using False by auto
    moreover have "matchId d \<notin> matchId ` set ds - matchId ` set (docs @ [d])" by simp
    ultimately have "card (matchId ` set (d # ds) - matchId ` set docs) = n' + 1"
      using c by simp
    moreover have "take (length docs) docs' = docs"
    proof -
      have "take (length docs) (take (length (docs @ [d])) docs') = docs"
        unfolding t by simp
      then show ?thesis by (simp add: min_def)
    qed
    ultimately show ?thesis using n l s by auto
  qed
qed

text \<open>
  C7. When the store itself does not fail, \<open>saveMatches\<close> returns without throwing, and
  what it returns is the number of records it inserted: the records whose key was
  neither stored nor earlier in the batch are appended to the collection, the duplicates
  are skipped. A failure of the store whose code is not 11000 is thrown on to the caller,
  with the collection as it was.
\<close>

theorem saveMatches_partial_success:
  "(\<exists>docs' n. saveMatches now None docs (JsArray ms) = (docs', Inr n)
       \<and> n = card (matchId ` set ms - matchId ` set docs)
       \<and> length docs' = length docs + n
       \<and> take (length docs) docs' = docs
       \<and> matchId ` set docs' = matchId ` set docs \<union> matchId ` set ms)
   \<and> (ms \<noteq> [] \<and> err_code err \<noteq> JNum 11000 \<longrightarrow>
        saveMatches now (Some err) docs (JsArray ms) = (docs, Inl err))
   \<and> saveMatches now fault docs NotAnArray = (docs, Inr 0)"
proof (intro conjI impI)
  let ?new = "map (\<lambda>m. m\<lparr> createdAt := Some now \<rparr>) ms"
  obtain docs' n where r: "insert_unordered docs ?new = (docs', n)"
    by (cases "insert_unordered docs ?new")
  have keys: "matchId ` set ?new = matchId ` set ms" by (auto simp: image_iff)
  from insert_unordered_count [OF r] keys have
    c: "n = card (matchId ` set ms - matchId ` set docs)"
      "length docs' = length docs + n" "take (length docs) docs' = docs"
      "matchId ` set docs' = matchId ` set docs \<union> matchId ` set ms" by auto
  show "\<exists>docs' n. saveMatches now None docs (JsArray ms) = (docs', Inr n)
       \<and> n = card (matchId ` set ms - matchId ` set docs)
       \<and> length docs' = length docs + n
       \<and> take (length docs) docs' = docs
       \<and> matchId ` set docs' = matchId ` set docs \<union> matchId ` set ms"
  proof (cases "ms = []")
    case True
    then show ?thesis by (simp add: saveMatches_def)
  next
    case False
    have "saveMatches now None docs (JsArray ms) = (docs', Inr n)"
      using False r by (simp add: saveMatches_def insertMany_def)
    with c show ?thesis by blast
  qed
next
  assume "ms \<noteq> [] \<and> err_code err \<noteq> JNum 11000"
  then show "saveMatches now (Some err) docs (JsArray ms) = (docs, Inl err)"
    by (simp add: saveMatches_def insertMany_def)
next
  show "saveMatches now fault docs NotAnArray = (docs, Inr 0)"
    by (simp add: saveMatches_def)
qed


text \<open>Five records of which two are duplicates: the count is 3.\<close>

theorem saveMatches_partial_success_witness:
  "snd (saveMatches 7 None
          [example_match ''m1'' (Val 1) 10 ''complete'', example_match ''m2'' (Val 2) 20 ''queued'']
          (JsArray five_pending)) = Inr 3
   \<and> five_pending \<noteq> []
   \<and> err_code \<lparr> err_code = JNum 6, err_nInserted = None \<rparr> \<noteq> JNum 11000
   \<and> saveMatches 7 (Some \<lparr> err_code = JNum 6, err_nInserted = None \<rparr>)
        [example_match ''m1'' (Val 1) 10 ''complete'', example_match ''m2'' (Val 2) 20 ''queued'']
        (JsArray five_pending)
      = ([example_match ''m1'' (Val 1) 10 ''complete'', example_match ''m2'' (Val 2) 20 ''queued''],
         Inl \<lparr> err_code = JNum 6, err_nInserted = None \<rparr>)"
proof -
  have a: "snd (saveMatches 7 None
          [example_match ''m1'' (Val 1) 10 ''complete'', example_match ''m2'' (Val 2) 20 ''queued'']
          (JsArray five_pending)) = Inr 3"
    by (simp add: saveMatches_def insertMany_def five_pending_def example_match_def)
  have b: "five_pending \<noteq> []" by (simp add: five_pending_def)
  have c: "err_code \<lparr> err_code = JNum 6, err_nInserted = None \<rparr> \<noteq> JNum 11000" by simp
  from saveMatches_partial_success [of 7
         "[example_match ''m1'' (Val 1) 10 ''complete'', example_match ''m2'' (Val 2) 20 ''queued'']"
         five_pending "\<lparr> err_code = JNum 6, err_nInserted = None \<rparr>"] a b c
  show ?thesis by blast
qed

section \<open>Properties of the selection\<close>

lemma sorted_cursor_limit: "sorted (map f xs) \<Longrightarrow> sorted (map f (cursor_limit n xs))"
  by (simp add: cursor_limit_def take_map [symmetric] sorted_wrt_take)

lemma set_cursor_limit: "set (cursor_limit n xs) \<subseteq> set xs"
  by (auto simp: cursor_limit_def dest: in_set_takeD)

lemma length_cursor_limit: "n \<noteq> 0 \<Longrightarrow> int (length (cursor_limit n xs)) \<le> \<bar>n\<bar>"
  by (simp add: cursor_limit_def)

lemma scrapeId_key_le:
  "scrapeId_key a \<le> scrapeId_key b \<longleftrightarrow> scrapeId_le (scrapeId a) (scrapeId b)"
  by (cases "scrapeId a"; cases "scrapeId b") (simp_all add: scrapeId_key_def)

lemma sorted_wrt_cursor_limit: "sorted_wrt P xs \<Longrightarrow> sorted_wrt P (cursor_limit n xs)"
  by (simp add: cursor_limit_def sorted_wrt_take)

lemma sorted_wrt_sort_key: "sorted_wrt (\<lambda>a b. f a \<le> f b) (sort_key f xs)"
  using sorted_sort_key [of f xs] by (simp add: sorted_map)

lemma processing_query_limit:
  "processing_query (opts\<lparr>opt_limit := n\<rparr>) = processing_query opts"
  by (rule ext) (simp add: processing_query_def split: option.splits)

lemma count_list_insort_key:
  "count_list (insort_key f x xs) m = count_list (x # xs) m"
  by (induction xs) auto

lemma count_list_sort_key: "count_list (sort_key f xs) m = count_list xs m"
  by (induction xs) (simp_all add: count_list_insort_key)

lemma count_list_filter_if:
  "count_list (filter P xs) m = (if P m then count_list xs m else 0)"
  by (induction xs) auto

lemma cursor_limit_zero: "cursor_limit 0 xs = xs"
  by (simp add: cursor_limit_def)

text \<open>
  C8. The order of the result is decided by one sampled document, the first of the
  collection, and not record by record: when the sample has a \<open>scrapeId\<close> the result is
  in ascending order of the \<open>scrapeId\<close> field, otherwise (also for an empty collection)
  all records of the result are in ascending order of \<open>scrapedAt\<close>, whatever the other
  documents have. Without a limit the result has exactly the documents that the query
  selects, each as often as the collection has it; with a limit it is the front of that
  list, of at most as many records as the limit says.
\<close>

theorem getMatchesForProcessing_order:
  "(case docs of
      [] \<Rightarrow> sorted_wrt (\<lambda>a b. scrapedAt a \<le> scrapedAt b) (getMatchesForProcessing opts docs)
    | sampleMatch # rest \<Rightarrow>
        if scrapeId sampleMatch \<noteq> Absent
        then sorted_wrt (\<lambda>a b. scrapeId_le (scrapeId a) (scrapeId b))
               (getMatchesForProcessing opts docs)
        else sorted_wrt (\<lambda>a b. scrapedAt a \<le> scrapedAt b) (getMatchesForProcessing opts docs))
   \<and> set (getMatchesForProcessing (opts\<lparr>opt_limit := 0\<rparr>) docs)
       = {m \<in> set docs. processing_query opts m}
   \<and> (\<forall>m. count_list (getMatchesForProcessing (opts\<lparr>opt_limit := 0\<rparr>) docs) m
            = (if processing_query opts m then count_list docs m else 0))
   \<and> getMatchesForProcessing opts docs
       = cursor_limit (opt_limit opts) (getMatchesForProcessing (opts\<lparr>opt_limit := 0\<rparr>) docs)
   \<and> (opt_limit opts \<noteq> 0 \<longrightarrow>
        getMatchesForProcessing opts docs
          = take (nat \<bar>opt_limit opts\<bar>) (getMatchesForProcessing (opts\<lparr>opt_limit := 0\<rparr>) docs)
        \<and> int (length (getMatchesForProcessing opts docs)) \<le> \<bar>opt_limit opts\<bar>)"
proof -
  let ?sel = "filter (processing_query opts) docs"
  have byId: "sorted_wrt (\<lambda>a b. scrapeId_le (scrapeId a) (scrapeId b))
                (cursor_limit (opt_limit opts) (sort_key scrapeId_key ?sel))"
    using sorted_wrt_sort_key [of scrapeId_key ?sel]
    by (intro sorted_wrt_cursor_limit) (simp add: scrapeId_key_le)
  have byAt: "sorted_wrt (\<lambda>a b. scrapedAt a \<le> scrapedAt b)
                (cursor_limit (opt_limit opts) (sort_key scrapedAt ?sel))"
    by (intro sorted_wrt_cursor_limit sorted_wrt_sort_key)
  have 1: "(case docs of
      [] \<Rightarrow> sorted_wrt (\<lambda>a b. scrapedAt a \<le> scrapedAt b) (getMatchesForProcessing opts docs)
    | sampleMatch # rest \<Rightarrow>
        if scrapeId sampleMatch \<noteq> Absent
        then sorted_wrt (\<lambda>a b. scrapeId_le (scrapeId a) (scrapeId b))
               (getMatchesForProcessing opts docs)
        else sorted_wrt (\<lambda>a b. scrapedAt a \<le> scrapedAt b) (getMatchesForProcessing opts docs))"
    using byId byAt
    by (cases docs) (simp_all add: getMatchesForProcessing_def sorts_by_scrapeId_def)
  have u: "getMatchesForProcessing (opts\<lparr>opt_limit := 0\<rparr>) docs
           = (if sorts_by_scrapeId docs then sort_key scrapeId_key ?sel
              else sort_key scrapedAt ?sel)"
    by (simp add: getMatchesForProcessing_def cursor_limit_zero processing_query_limit)
  have 2: "set (getMatchesForProcessing (opts\<lparr>opt_limit := 0\<rparr>) docs)
             = {m \<in> set docs. processing_query opts m}"
    by (auto simp: u)
  have 3: "\<forall>m. count_list (getMatchesForProcessing (opts\<lparr>opt_limit := 0\<rparr>) docs) m
            = (if processing_query opts m then count_list docs m else 0)"
    by (simp add: u count_list_sort_key count_list_filter_if)
  have 4: "getMatchesForProcessing opts docs
       = cursor_limit (opt_limit opts) (getMatchesForProcessing (opts\<lparr>opt_limit := 0\<rparr>) docs)"
    unfolding u by (simp add: getMatchesForProcessing_def)
  have 5: "opt_limit opts \<noteq> 0 \<longrightarrow>
        getMatchesForProcessing opts docs
          = take (nat \<bar>opt_limit opts\<bar>) (getMatchesForProcessing (opts\<lparr>opt_limit := 0\<rparr>) docs)
        \<and> int (length (getMatchesForProcessing opts docs)) \<le> \<bar>opt_limit opts\<bar>"
  proof (intro impI conjI)
    assume n: "opt_limit opts \<noteq> 0"
    from n show "getMatchesForProcessing opts docs
          = take (nat \<bar>opt_limit opts\<bar>) (getMatchesForProcessing (opts\<lparr>opt_limit := 0\<rparr>) docs)"
      by (subst 4) (simp add: cursor_limit_def)
    from n show "int (length (getMatchesForProcessing opts docs)) \<le> \<bar>opt_limit opts\<bar>"
      by (subst 4) (rule length_cursor_limit)
  qed
  from 1 2 3 4 5 show ?thesis by blast
qed

text \<open>
  A collection with one record that has a \<open>scrapeId\<close> and two that have none, the sampled
  one among the latter: all three come back in the order of \<open>scrapedAt\<close>, which is not the
  order of \<open>scrapeId\<close>. With a record that has a \<open>scrapeId\<close> in the first place, the same
  records come back in the order of \<open>scrapeId\<close>, those without one first, which is not the
  order of \<open>scrapedAt\<close>.
\<close>

theorem getMatchesForProcessing_order_witness:
  "getMatchesForProcessing default_options
       [example_match ''a'' Absent 30 ''pending'', example_match ''b'' (Val 1) 20 ''pending'',
        example_match ''c'' Absent 10 ''pending'']
     = [example_match ''c'' Absent 10 ''pending'', example_match ''b'' (Val 1) 20 ''pending'',
        example_match ''a'' Absent 30 ''pending'']
   \<and> sorted_wrt (\<lambda>a b. scrapedAt a \<le> scrapedAt b)
       (getMatchesForProcessing default_options
          [example_match ''a'' Absent 30 ''pending'', example_match ''b'' (Val 1) 20 ''pending'',
           example_match ''c'' Absent 10 ''pending''])
   \<and> \<not> sorted_wrt (\<lambda>a b. scrapeId_le (scrapeId a) (scrapeId b))
       (getMatchesForProcessing default_options
          [example_match ''a'' Absent 30 ''pending'', example_match ''b'' (Val 1) 20 ''pending'',
           example_match ''c'' Absent 10 ''pending''])
   \<and> getMatchesForProcessing default_options
       [example_match ''d'' (Val 3) 5 ''pending'', example_match ''a'' Absent 30 ''pending'',
        example_match ''b'' (Val 1) 20 ''pending'', example_match ''e'' (Val 2) 40 ''pending'']
     = [example_match ''a'' Absent 30 ''pending'', example_match ''b'' (Val 1) 20 ''pending'',
        example_match ''e'' (Val 2) 40 ''pending'', example_match ''d'' (Val 3) 5 ''pending'']
   \<and> sorted_wrt (\<lambda>a b. scrapeId_le (scrapeId a) (scrapeId b))
       (getMatchesForProcessing default_options
          [example_match ''d'' (Val 3) 5 ''pending'', example_match ''a'' Absent 30 ''pending'',
           example_match ''b'' (Val 1) 20 ''pending'', example_match ''e'' (Val 2) 40 ''pending''])
   \<and> \<not> sorted_wrt (\<lambda>a b. scrapedAt a \<le> scrapedAt b)
       (getMatchesForProcessing default_options
          [example_match ''d'' (Val 3) 5 ''pending'', example_match ''a'' Absent 30 ''pending'',
           example_match ''b'' (Val 1) 20 ''pending'', example_match ''e'' (Val 2) 40 ''pending''])
   \<and> opt_limit default_options \<noteq> 0
   \<and> int (length (getMatchesForProcessing default_options
          [example_match ''d'' (Val 3) 5 ''pending'', example_match ''a'' Absent 30 ''pending'',
           example_match ''b'' (Val 1) 20 ''pending'', example_match ''e'' (Val 2) 40 ''pending'']))
       \<le> \<bar>opt_limit default_options\<bar>"
proof -
  let ?docs = "[example_match ''a'' Absent 30 ''pending'', example_match ''b'' (Val 1) 20 ''pending'',
        example_match ''c'' Absent 10 ''pending'']"
  let ?docs2 = "[example_match ''d'' (Val 3) 5 ''pending'', example_match ''a'' Absent 30 ''pending'',
        example_match ''b'' (Val 1) 20 ''pending'', example_match ''e'' (Val 2) 40 ''pending'']"
  have q: "filter (processing_query default_options) ?docs = ?docs"
    "filter (processing_query default_options) ?docs2 = ?docs2"
    by (simp_all add: processing_query_def default_options_def example_match_def equals_if_set_def)
  have l: "opt_limit default_options \<noteq> 0" by (simp add: default_options_def)
  have a: "getMatchesForProcessing default_options ?docs
     = [example_match ''c'' Absent 10 ''pending'', example_match ''b'' (Val 1) 20 ''pending'',
        example_match ''a'' Absent 30 ''pending'']"
    unfolding getMatchesForProcessing_def q
    by (simp add: sorts_by_scrapeId_def cursor_limit_def default_options_def example_match_def)
  have b: "getMatchesForProcessing default_options ?docs2
     = [example_match ''a'' Absent 30 ''pending'', example_match ''b'' (Val 1) 20 ''pending'',
        example_match ''e'' (Val 2) 40 ''pending'', example_match ''d'' (Val 3) 5 ''pending'']"
    unfolding getMatchesForProcessing_def q
    by (simp add: sorts_by_scrapeId_def cursor_limit_def default_options_def example_match_def
          scrapeId_key_def)
  have s1: "scrapeId (example_match ''a'' Absent 30 ''pending'') = Absent"
    and s2: "scrapeId (example_match ''d'' (Val 3) 5 ''pending'') \<noteq> Absent"
    by (simp_all add: example_match_def)
  note t1 = getMatchesForProcessing_order [where docs = ?docs and opts = default_options]
  note t2 = getMatchesForProcessing_order [where docs = ?docs2 and opts = default_options]
  from t1 [THEN conjunct1] s1 have c: "sorted_wrt (\<lambda>a b. scrapedAt a \<le> scrapedAt b)
       (getMatchesForProcessing default_options ?docs)"
    by simp
  from t2 [THEN conjunct1] s2 have d: "sorted_wrt (\<lambda>a b. scrapeId_le (scrapeId a) (scrapeId b))
       (getMatchesForProcessing default_options ?docs2)"
    by simp
  from t2 l have e: "int (length (getMatchesForProcessing default_options ?docs2))
       \<le> \<bar>opt_limit default_options\<bar>"
    by blast
  have f: "\<not> sorted_wrt (\<lambda>a b. scrapeId_le (scrapeId a) (scrapeId b))
       (getMatchesForProcessing default_options ?docs)"
    unfolding a by (simp add: example_match_def)
  have g: "\<not> sorted_wrt (\<lambda>a b. scrapedAt a \<le> scrapedAt b)
       (getMatchesForProcessing default_options ?docs2)"
    unfolding b by (simp add: example_match_def)
  from a b c d e f g l show ?thesis by blast
qed

section \<open>Properties of the internal identifier\<close>

lemma digit_char_is_digit: "d < 10 \<Longrightarrow> is_digit (digit_char d)"
proof -
  assume "d < 10"
  then have "d < length ''0123456789''" by simp
  then have "''0123456789'' ! d \<in> set ''0123456789''" by (rule nth_mem)
  then show ?thesis by (simp only: is_digit_def digit_char_def)
qed

lemma decimal_digits: "list_all is_digit (decimal n)"
proof (induction n rule: decimal.induct)
  case (1 n)
  show ?case
  proof (cases "n < 10")
    case True
    then show ?thesis by (subst decimal.simps) (simp add: digit_char_is_digit)
  next
    case False
    with 1 have "list_all is_digit (decimal (n div 10))" by simp
    moreover have "is_digit (digit_char (n mod 10))" by (rule digit_char_is_digit) simp
    ultimately show ?thesis using False by (subst decimal.simps) simp
  qed
qed

lemma is_digit_zero: "is_digit (CHR ''0'')"
  by (simp add: is_digit_def)

lemma zero_pad_digits: "list_all is_digit (zero_pad w n)"
  using decimal_digits [of n]
  by (auto simp: zero_pad_def padStart_def list_all_iff is_digit_zero)

lemma split_on_nonempty: "split_on c s \<noteq> []"
  by (induction s) (auto split: list.splits)

lemma split_on_head:
  "c \<notin> set a \<Longrightarrow> hd (split_on c (a @ c # rest)) = a"
  using split_on_nonempty [of c]
  by (induction a) (auto split: list.splits)

lemma is_digit_not_T: "is_digit c \<Longrightarrow> c \<noteq> CHR ''T'' \<and> c \<noteq> CHR ''-''"
  by (auto simp: is_digit_def)

lemma filter_digits: "list_all is_digit s \<Longrightarrow> filter (\<lambda>c. c \<noteq> CHR ''-'') s = s"
  by (induction s) (auto dest: is_digit_not_T)

lemma digits_no_T: "list_all is_digit s \<Longrightarrow> CHR ''T'' \<notin> set s"
  by (auto simp: list_all_iff dest: is_digit_not_T)

lemma iso_year_no_T: "CHR ''T'' \<notin> set (iso_year y)"
  using digits_no_T [OF zero_pad_digits, of 4 "nat y"]
    digits_no_T [OF zero_pad_digits, of 6 "nat \<bar>y\<bar>"]
  by (auto simp: iso_year_def)

lemma datePart_of_valid:
  "datePart (ValidDate u)
     = Inr (filter (\<lambda>c. c \<noteq> CHR ''-'') (iso_year (utc_year u))
            @ zero_pad 2 (utc_month u) @ zero_pad 2 (utc_day u))"
proof -
  let ?Y = "iso_year (utc_year u)" and ?M = "zero_pad 2 (utc_month u)"
    and ?D = "zero_pad 2 (utc_day u)"
  let ?a = "?Y @ ''-'' @ ?M @ ''-'' @ ?D"
  let ?rest = "zero_pad 2 (utc_hours u) @ '':'' @ zero_pad 2 (utc_minutes u) @ '':''
               @ zero_pad 2 (utc_seconds u) @ ''.'' @ zero_pad 3 (utc_ms u) @ ''Z''"
  have iso: "toISOString (ValidDate u) = Inr (?a @ CHR ''T'' # ?rest)"
    by (simp add: toISOString_def)
  have "CHR ''T'' \<notin> set ?a"
    using iso_year_no_T [of "utc_year u"]
      digits_no_T [OF zero_pad_digits, of 2 "utc_month u"]
      digits_no_T [OF zero_pad_digits, of 2 "utc_day u"] by simp
  then have h: "hd (split_on (CHR ''T'') (?a @ CHR ''T'' # ?rest)) = ?a"
    by (rule split_on_head)
  have "filter (\<lambda>c. c \<noteq> CHR ''-'') ?a = filter (\<lambda>c. c \<noteq> CHR ''-'') ?Y @ ?M @ ?D"
    by (simp add: filter_digits zero_pad_digits)
  with iso h show ?thesis by (simp add: datePart_def)
qed

lemma datePart_valid:
  assumes y: "0 \<le> utc_year u" "utc_year u \<le> 9999"
  shows "datePart (ValidDate u)
         = Inr (zero_pad 4 (nat (utc_year u)) @ zero_pad 2 (utc_month u) @ zero_pad 2 (utc_day u))"
  using y by (simp add: datePart_of_valid iso_year_def filter_digits zero_pad_digits)

lemma datePart_total: "\<exists>dp. datePart d = Inr dp"
  by (cases d) (simp_all add: datePart_def toISOString_def)

lemma length_zero_pad: "length (decimal n) \<le> w \<Longrightarrow> length (zero_pad w n) = w"
  by (simp add: zero_pad_def padStart_def)

lemma normalize_chars: "list_all is_az09 (normalize str)"
  by (cases str) (simp_all add: normalize_def list_all_iff)

text \<open>
  C10 (as amended). \<open>createInternalId\<close> returns for every pair of names, missing ones
  included, and every date argument; the result is the date part, \<open>_\<close>, the home part,
  \<open>_vs_\<close> and the away part. A team part is the name in lower case without the characters
  outside \<open>[a-z0-9]\<close>, and empty for a missing name. The date part is empty for an argument
  that is not a valid \<open>Date\<close>; for a valid date it is the year, month and day of its ISO
  text without the dashes. For a year from 0 to 9999 these are the four digits of the
  year, the two of the month and the two of the day; for any other year the ISO text has
  a sign and six digits for the year, of which the date part keeps a \<open>+\<close> and drops a \<open>-\<close>.
\<close>

theorem createInternalId_total:
  "(\<exists>dp. datePart d = Inr dp
        \<and> createInternalId homeTeam awayTeam d
            = Inr (dp @ ''_'' @ normalize homeTeam @ ''_vs_'' @ normalize awayTeam))
   \<and> normalize None = []
   \<and> normalize (Some s) = filter is_az09 (map toLowerCase s)
   \<and> list_all is_az09 (normalize homeTeam) \<and> list_all is_az09 (normalize awayTeam)
   \<and> datePart NotADate = Inr [] \<and> datePart InvalidDate = Inr []
   \<and> datePart (ValidDate u)
       = Inr (filter (\<lambda>c. c \<noteq> CHR ''-'') (iso_year (utc_year u))
              @ zero_pad 2 (utc_month u) @ zero_pad 2 (utc_day u))
   \<and> (0 \<le> utc_year u \<and> utc_year u \<le> 9999 \<longrightarrow>
        datePart (ValidDate u)
          = Inr (zero_pad 4 (nat (utc_year u)) @ zero_pad 2 (utc_month u)
                 @ zero_pad 2 (utc_day u)))"
proof -
  from datePart_total [of d] obtain dp where dp: "datePart d = Inr dp" by blast
  then have "createInternalId homeTeam awayTeam d
            = Inr (dp @ ''_'' @ normalize homeTeam @ ''_vs_'' @ normalize awayTeam)"
    by (simp add: createInternalId_def)
  with dp have 1: "\<exists>dp. datePart d = Inr dp
        \<and> createInternalId homeTeam awayTeam d
            = Inr (dp @ ''_'' @ normalize homeTeam @ ''_vs_'' @ normalize awayTeam)" by blast
  have 2: "datePart NotADate = Inr []" "datePart InvalidDate = Inr []"
    by (simp_all add: datePart_def)
  have 3: "0 \<le> utc_year u \<and> utc_year u \<le> 9999 \<longrightarrow>
        datePart (ValidDate u)
          = Inr (zero_pad 4 (nat (utc_year u)) @ zero_pad 2 (utc_month u)
                 @ zero_pad 2 (utc_day u))"
    by (simp add: datePart_valid)
  have 4: "normalize None = []" "normalize (Some s) = filter is_az09 (map toLowerCase s)"
    by (simp_all add: normalize_def)
  from 1 2 3 4 datePart_of_valid [of u] normalize_chars [of homeTeam] normalize_chars [of awayTeam]
  show ?thesis by blast
qed

theorem createInternalId_total_witness:
  "(0::int) \<le> 2025 \<and> (2025::int) \<le> 9999
   \<and> datePart (ValidDate \<lparr>utc_year = 2025, utc_month = 4, utc_day = 25, utc_hours = 15,
                           utc_minutes = 0, utc_seconds = 0, utc_ms = 0\<rparr>) = Inr ''20250425''
   \<and> createInternalId (Some ''Real Madrid'') None
        (ValidDate \<lparr>utc_year = 2025, utc_month = 4, utc_day = 25, utc_hours = 15,
                    utc_minutes = 0, utc_seconds = 0, utc_ms = 0\<rparr>)
      = Inr ''20250425_realmadrid_vs_''"
proof -
  let ?u = "\<lparr>utc_year = 2025, utc_month = 4, utc_day = 25, utc_hours = 15,
                           utc_minutes = 0, utc_seconds = 0, utc_ms = 0\<rparr>"
  have z: "zero_pad 4 (nat (utc_year ?u)) @ zero_pad 2 (utc_month ?u) @ zero_pad 2 (utc_day ?u)
           = ''20250425''"
    by (simp add: zero_pad_def padStart_def decimal.simps digit_char_def)
  have n: "normalize (Some ''Real Madrid'') = ''realmadrid''" "normalize None = []"
    by code_simp+
  have y: "0 \<le> utc_year ?u \<and> utc_year ?u \<le> 9999" by simp
  from createInternalId_total [of "ValidDate ?u" "Some ''Real Madrid''" None "''x''" ?u] y
  have d: "datePart (ValidDate ?u)
          = Inr (zero_pad 4 (nat (utc_year ?u)) @ zero_pad 2 (utc_month ?u)
                 @ zero_pad 2 (utc_day ?u))"
    and c: "\<exists>dp. datePart (ValidDate ?u) = Inr dp
        \<and> createInternalId (Some ''Real Madrid'') None (ValidDate ?u)
            = Inr (dp @ ''_'' @ normalize (Some ''Real Madrid'') @ ''_vs_'' @ normalize None)"
    by blast+
  from d have d': "datePart (ValidDate ?u) = Inr ''20250425''" unfolding z .
  from c d' have "createInternalId (Some ''Real Madrid'') None (ValidDate ?u)
      = Inr ''20250425_realmadrid_vs_''"
    unfolding n by auto
  with d' show ?thesis by simp
qed

text \<open>
  The dates of the year 10000 and of the year before the year 0 are valid dates whose
  date part is not of the form \<open>YYYYMMDD\<close>: it has ten characters, with a \<open>+\<close> in front for
  the former.
\<close>

theorem createInternalId_year_counterexample:
  "createInternalId (Some ''a'') (Some ''b'')
     (ValidDate \<lparr>utc_year = 10000, utc_month = 1, utc_day = 1, utc_hours = 0,
                 utc_minutes = 0, utc_seconds = 0, utc_ms = 0\<rparr>)
     = Inr ''+0100000101_a_vs_b''
   \<and> createInternalId (Some ''a'') (Some ''b'')
     (ValidDate \<lparr>utc_year = - 1, utc_month = 1, utc_day = 1, utc_hours = 0,
                 utc_minutes = 0, utc_seconds = 0, utc_ms = 0\<rparr>)
     = Inr ''0000010101_a_vs_b''"
proof -
  let ?u = "\<lparr>utc_year = 10000, utc_month = 1, utc_day = 1, utc_hours = 0,
            utc_minutes = 0, utc_seconds = 0, utc_ms = 0\<rparr>"
  let ?v = "\<lparr>utc_year = - 1, utc_month = 1, utc_day = 1, utc_hours = 0,
            utc_minutes = 0, utc_seconds = 0, utc_ms = 0\<rparr>"
  have n: "normalize (Some ''a'') = ''a''" "normalize (Some ''b'') = ''b''"
    by code_simp+
  have r: "replicate 5 (CHR ''0'') = ''00000''"
    by (simp add: eval_nat_numeral)
  have y: "iso_year (utc_year ?u) = ''+010000''" "iso_year (utc_year ?v) = ''-000001''"
    by (simp_all add: iso_year_def zero_pad_def padStart_def decimal.simps digit_char_def r)
  have z: "zero_pad 2 (Suc 0) = ''01''"
    by (simp add: zero_pad_def padStart_def decimal.simps digit_char_def)
  have "datePart (ValidDate ?u) = Inr ''+0100000101''"
    unfolding datePart_of_valid y by (simp add: z)
  moreover have "datePart (ValidDate ?v) = Inr ''0000010101''"
    unfolding datePart_of_valid y by (simp add: z)
  ultimately show ?thesis by (simp add: createInternalId_def n)
qed

end
